theory Spec2Isabelle
  imports Main "HOL-Library.FSet"
begin

section \<open>StudentModels.py: students and the bitmap pool\<close>

text \<open>
  \<^verbatim>\<open>class Gender(Enum)\<close> and the frozen dataclass \<^verbatim>\<open>Student\<close>. Python compares and
  hashes students by \<^verbatim>\<open>original_name\<close> only; the model keeps the three fields and
  speaks about \<open>original_name\<close> wherever the source relies on that equality.
\<close>

datatype Gender = MALE | FEMALE | UNKNOWN

record Student =
  original_name :: string
  display_name :: string
  gender :: Gender

text \<open>
  The slots of \<^verbatim>\<open>StudentPool\<close>. A \<^verbatim>\<open>bitarray\<close> is a list of booleans, the
  \<^verbatim>\<open>deque\<close> a list of indices (oldest first) together with its \<^verbatim>\<open>maxlen\<close>.
  \<open>no_duplicate\<close> holds the value after \<^verbatim>\<open>max(0, no_duplicate)\<close>, hence a natural number.
\<close>

record StudentPool =
  students :: "Student list"
  name_to_idx :: "string \<rightharpoonup> nat"
  female_bitmap :: "bool list"
  bit_available :: "bool list"
  bit_picked :: "bool list"
  no_duplicate :: nat
  recent_bitmap :: "bool list"
  recent_queue :: "nat list"
  queue_maxlen :: "nat option"

subsection \<open>bitarray and deque operations used by the pool\<close>

text \<open>
  \<^verbatim>\<open>a & b\<close>, \<^verbatim>\<open>a | b\<close> and \<^verbatim>\<open>~a\<close> work position by position. The library raises
  \<^verbatim>\<open>ValueError\<close> when the two lengths differ; every bitmap of one pool has the length of
  the roster (\<open>pool_wf\<close> below, established by the constructor and kept by every
  operation), so that branch is never taken and \<open>map2\<close> is the operation.
\<close>

definition bit_and :: "bool list \<Rightarrow> bool list \<Rightarrow> bool list" where
  "bit_and a b = map2 (\<and>) a b"

definition bit_or :: "bool list \<Rightarrow> bool list \<Rightarrow> bool list" where
  "bit_or a b = map2 (\<or>) a b"

definition bit_not :: "bool list \<Rightarrow> bool list" where
  "bit_not a = map Not a"

definition count_true :: "bool list \<Rightarrow> nat" where
  "count_true a = length (filter (\<lambda>b. b) a)"

definition setall :: "bool \<Rightarrow> bool list \<Rightarrow> bool list" where
  "setall v a = replicate (length a) v"

text \<open>\<^verbatim>\<open>deque.append\<close>: a deque that is at its \<^verbatim>\<open>maxlen\<close> drops its oldest entry.\<close>

definition deque_append :: "nat option \<Rightarrow> nat list \<Rightarrow> nat \<Rightarrow> nat list" where
  "deque_append maxlen q x =
     (case maxlen of
        None \<Rightarrow> q @ [x]
      | Some m \<Rightarrow> (if m = 0 then q else if m \<le> length q then tl q @ [x] else q @ [x]))"

subsection \<open>Construction\<close>

text \<open>
  How building a pool can end without one: the constructor's \<^verbatim>\<open>ValueError\<close> for an
  empty roster (\<open>EmptyPopulation\<close>), the loader's repair dialog listing the female names
  that are not in the roster (\<open>SubsetViolation\<close>), and the \<^verbatim>\<open>AttributeError\<close> of a
  constructor call on objects that are not students.
\<close>

datatype build_error = EmptyPopulation | SubsetViolation "string set" | AttributeError

text \<open>
  \<^verbatim>\<open>{s.original_name: idx for idx, s in enumerate(all_students)}\<close>: a later line with the
  same name overwrites the index of an earlier one.
\<close>

definition build_name_to_idx :: "Student list \<Rightarrow> (string \<rightharpoonup> nat)" where
  "build_name_to_idx all_students =
     foldl (\<lambda>m (idx, s). m(original_name s \<mapsto> idx)) Map.empty
       (zip [0..<length all_students] all_students)"

text \<open>The loop over \<^verbatim>\<open>female_students\<close>: names that are not in the roster are skipped.\<close>

definition mark_female :: "(string \<rightharpoonup> nat) \<Rightarrow> bool list \<Rightarrow> Student list \<Rightarrow> bool list" where
  "mark_female n2i bm female_students =
     foldl (\<lambda>b s. case n2i (original_name s) of None \<Rightarrow> b | Some i \<Rightarrow> b[i := True])
       bm female_students"

text \<open>
  \<^verbatim>\<open>StudentPool.__init__\<close>. The \<^verbatim>\<open>ValueError\<close> raised for an empty roster is \<open>EmptyPopulation\<close>.
\<close>

definition StudentPool_init ::
  "Student list \<Rightarrow> Student list \<Rightarrow> int \<Rightarrow> build_error + StudentPool" where
  "StudentPool_init all_students female_students nd =
     (if all_students = [] then Inl EmptyPopulation
      else
        let total = length all_students;
            n2i = build_name_to_idx all_students
        in Inr \<lparr> students = all_students,
                 name_to_idx = n2i,
                 female_bitmap = mark_female n2i (replicate total False) female_students,
                 bit_available = replicate total True,
                 bit_picked = replicate total False,
                 no_duplicate = nat (max 0 nd),
                 recent_bitmap = replicate total False,
                 recent_queue = [],
                 queue_maxlen = (if nd > 0 then Some (nat nd) else None) \<rparr>)"

text \<open>
  Python does not check what the two lists hold. The fallback of \<^verbatim>\<open>_load_student_data\<close>
  calls the constructor with lists of strings: a non-empty list passes the emptiness test,
  and \<^verbatim>\<open>AttributeError\<close> is raised where \<^verbatim>\<open>.original_name\<close> is first read from a
  string, in the dictionary comprehension over \<^verbatim>\<open>all_students\<close> or else in the loop over
  \<^verbatim>\<open>female_students\<close>. \<open>StudentPool_call\<close> is the constructor on such lists.
\<close>

datatype roster_item = is_StudentItem: StudentItem (the_student: Student) | StrItem string

definition StudentPool_call ::
  "roster_item list \<Rightarrow> roster_item list \<Rightarrow> int \<Rightarrow> build_error + StudentPool" where
  "StudentPool_call all_items female_items nd =
     (if all_items = [] then Inl EmptyPopulation
      else if \<not> list_all is_StudentItem all_items then Inl AttributeError
      else if \<not> list_all is_StudentItem female_items then Inl AttributeError
      else StudentPool_init (map the_student all_items) (map the_student female_items) nd)"

subsection \<open>pick\<close>

text \<open>\<^verbatim>\<open>_get_candidate_bitmap\<close>, in the order of the source's tests.\<close>

definition get_candidate_bitmap :: "StudentPool \<Rightarrow> Gender \<Rightarrow> bool list" where
  "get_candidate_bitmap p g =
     (if g = UNKNOWN then bit_available p
      else if g = FEMALE then bit_and (bit_available p) (female_bitmap p)
      else bit_and (bit_available p) (bit_not (female_bitmap p)))"

text \<open>Steps 1 and 2 of \<^verbatim>\<open>pick\<close>: the candidate bitmap without the recent picks.\<close>

definition pick_candidates :: "StudentPool \<Rightarrow> Gender \<Rightarrow> bool list" where
  "pick_candidates p g =
     (let candidates = get_candidate_bitmap p g
      in if no_duplicate p > 0 then bit_and candidates (bit_not (recent_bitmap p))
         else candidates)"

text \<open>
  Step 5, the \<^verbatim>\<open>for idx, is_available in enumerate(candidates)\<close> loop with its counter.
  \<open>None\<close> is the loop running to its end without binding \<^verbatim>\<open>picked_idx\<close>.
\<close>

fun scan_kth :: "bool list \<Rightarrow> nat \<Rightarrow> nat \<Rightarrow> nat \<Rightarrow> nat option" where
  "scan_kth [] idx count target = None"
| "scan_kth (b # bs) idx count target =
     (if b then (if count = target then Some idx
                 else scan_kth bs (Suc idx) (Suc count) target)
      else scan_kth bs (Suc idx) count target)"

text \<open>
  \<open>NoCandidates g\<close> is the \<^verbatim>\<open>IndexError\<close> whose message names \<^verbatim>\<open>gender.value\<close>. The draw
  \<^verbatim>\<open>random.randint(0, available_count - 1)\<close> is the argument \<open>target\<close>; a value outside
  that range, which \<^verbatim>\<open>randint\<close> never returns, would leave \<^verbatim>\<open>picked_idx\<close> unbound.
\<close>

datatype pick_error = NoCandidates Gender | UnboundPickedIdx

text \<open>Step 6, \<^verbatim>\<open>if remove:\<close>.\<close>

definition mark_removed :: "bool \<Rightarrow> nat \<Rightarrow> StudentPool \<Rightarrow> StudentPool" where
  "mark_removed remove picked_idx p =
     (if remove
      then p\<lparr> bit_available := (bit_available p)[picked_idx := False],
              bit_picked := (bit_picked p)[picked_idx := True] \<rparr>
      else p)"

text \<open>
  Step 7, \<^verbatim>\<open>if self._no_duplicate > 0:\<close>. \<^verbatim>\<open>popleft\<close> is reached only with
  \<^verbatim>\<open>len(queue) >= no_duplicate > 0\<close>, so the queue is not empty there.
\<close>

definition evict_oldest :: "StudentPool \<Rightarrow> StudentPool" where
  "evict_oldest p =
     (if no_duplicate p \<le> length (recent_queue p)
      then (case recent_queue p of
              [] \<Rightarrow> p
            | oldest_idx # rest \<Rightarrow>
                p\<lparr> recent_queue := rest,
                   recent_bitmap := (recent_bitmap p)[oldest_idx := False] \<rparr>)
      else p)"

definition remember_recent :: "nat \<Rightarrow> StudentPool \<Rightarrow> StudentPool" where
  "remember_recent picked_idx p =
     (if no_duplicate p > 0
      then (let q = evict_oldest p
            in q\<lparr> recent_queue := deque_append (queue_maxlen q) (recent_queue q) picked_idx,
                   recent_bitmap := (recent_bitmap q)[picked_idx := True] \<rparr>)
      else p)"

text \<open>
  The body of \<^verbatim>\<open>pick\<close> up to its last line: the index that was picked and the updated
  pool, or the exception.
\<close>

definition pick_core ::
  "Gender \<Rightarrow> bool \<Rightarrow> nat \<Rightarrow> StudentPool \<Rightarrow> pick_error + (nat \<times> StudentPool)" where
  "pick_core g remove target p =
     (let candidates = pick_candidates p g;
          available_count = count_true candidates
      in if available_count = 0 then Inl (NoCandidates g)
         else (case scan_kth candidates 0 0 target of
                 None \<Rightarrow> Inl UnboundPickedIdx
               | Some picked_idx \<Rightarrow>
                   Inr (picked_idx, remember_recent picked_idx (mark_removed remove picked_idx p))))"

text \<open>
  \<^verbatim>\<open>pick\<close>: what the call returns or raises, and the pool after the call. The last line
  returns \<^verbatim>\<open>self._students[picked_idx].display_name\<close>.
\<close>

definition pick ::
  "Gender \<Rightarrow> bool \<Rightarrow> nat \<Rightarrow> StudentPool \<Rightarrow> (pick_error + string) \<times> StudentPool" where
  "pick g remove target p =
     (case pick_core g remove target p of
        Inl e \<Rightarrow> (Inl e, p)
      | Inr (picked_idx, p') \<Rightarrow> (Inr (display_name (students p' ! picked_idx)), p'))"

subsection \<open>reset, export and restore\<close>

definition reset :: "Gender \<Rightarrow> StudentPool \<Rightarrow> StudentPool" where
  "reset g p =
     (let p1 = (if g = UNKNOWN
                then p\<lparr> bit_available := setall True (bit_available p),
                        bit_picked := setall False (bit_picked p) \<rparr>
                else (let mask = (if g = FEMALE then female_bitmap p
                                  else bit_not (female_bitmap p))
                      in p\<lparr> bit_available := bit_or (bit_available p) mask,
                             bit_picked := bit_and (bit_picked p) (bit_not mask) \<rparr>))
      in p1\<lparr> recent_queue := [], recent_bitmap := setall False (recent_bitmap p1) \<rparr>)"

definition get_available_names :: "StudentPool \<Rightarrow> string set" where
  "get_available_names p =
     set (map (\<lambda>i. original_name (students p ! i))
            (filter (\<lambda>i. bit_available p ! i) [0..<length (students p)]))"

text \<open>
  \<^verbatim>\<open>restore_available_names\<close>. The argument is a Python set; \<open>names\<close> lists it in the
  order the \<^verbatim>\<open>for\<close> loop happens to visit it. \<^verbatim>\<open>if names:\<close> skips the loop for the
  empty set.
\<close>

definition restore_one :: "StudentPool \<Rightarrow> string \<Rightarrow> StudentPool" where
  "restore_one p name =
     (case name_to_idx p name of
        None \<Rightarrow> p
      | Some idx \<Rightarrow> p\<lparr> bit_available := (bit_available p)[idx := True],
                        bit_picked := (bit_picked p)[idx := False] \<rparr>)"

definition restore_available_names :: "string list \<Rightarrow> StudentPool \<Rightarrow> StudentPool" where
  "restore_available_names names p =
     (let p1 = p\<lparr> bit_available := setall False (bit_available p),
                  bit_picked := setall True (bit_picked p) \<rparr>
      in if names \<noteq> [] then foldl restore_one p1 names else p1)"

text \<open>
  The mask of a gender filter, as \<^verbatim>\<open>reset\<close>, \<^verbatim>\<open>get_stats\<close> and
  \<^verbatim>\<open>_get_candidate_bitmap\<close> compute it: every student for \<open>UNKNOWN\<close>,
  \<^verbatim>\<open>_female_bitmap\<close> for \<open>FEMALE\<close>, its complement for \<open>MALE\<close>.
\<close>

definition gender_mask :: "StudentPool \<Rightarrow> Gender \<Rightarrow> bool list" where
  "gender_mask p g =
     (if g = UNKNOWN then replicate (length (female_bitmap p)) True
      else if g = FEMALE then female_bitmap p
      else bit_not (female_bitmap p))"

text \<open>
  The candidate bitmap in the words of the specification: a roster position is a
  candidate when its available bit is set, the gender mask of the filter selects it and,
  if \<open>no_duplicate > 0\<close>, its recent bit is not set.
\<close>

definition spec_candidate :: "StudentPool \<Rightarrow> Gender \<Rightarrow> nat \<Rightarrow> bool" where
  "spec_candidate p g i \<longleftrightarrow>
     bit_available p ! i \<and> gender_mask p g ! i \<and>
     (0 < no_duplicate p \<longrightarrow> \<not> recent_bitmap p ! i)"

definition spec_candidate_bitmap :: "StudentPool \<Rightarrow> Gender \<Rightarrow> bool list" where
  "spec_candidate_bitmap p g = map (spec_candidate p g) [0..<length (students p)]"

subsection \<open>Well-formed pools\<close>

text \<open>
  What the constructor establishes and every operation keeps: the roster is not empty,
  each bitmap has one bit per student, the dictionary is the one built from the roster,
  the queue holds roster indices and respects its \<^verbatim>\<open>maxlen\<close>.
\<close>

definition pool_wf :: "StudentPool \<Rightarrow> bool" where
  "pool_wf p \<longleftrightarrow>
     students p \<noteq> [] \<and>
     length (female_bitmap p) = length (students p) \<and>
     length (bit_available p) = length (students p) \<and>
     length (bit_picked p) = length (students p) \<and>
     length (recent_bitmap p) = length (students p) \<and>
     name_to_idx p = build_name_to_idx (students p) \<and>
     (\<forall>i \<in> set (recent_queue p). i < length (students p)) \<and>
     queue_maxlen p = (if no_duplicate p > 0 then Some (no_duplicate p) else None) \<and>
     length (recent_queue p) \<le> no_duplicate p"

text \<open>The candidate positions of a bitmap, in index order.\<close>

definition set_bit_positions :: "bool list \<Rightarrow> nat list" where
  "set_bit_positions bs = filter (\<lambda>i. bs ! i) [0..<length bs]"

subsection \<open>A small pool for concrete runs\<close>

text \<open>The roster A, B, C, D, E with the female list C, D.\<close>

definition demo_roster :: "Student list" where
  "demo_roster =
     map (\<lambda>n. \<lparr> original_name = n, display_name = n, gender = UNKNOWN \<rparr>)
       [''A'', ''B'', ''C'', ''D'', ''E'']"

definition demo_female :: "Student list" where
  "demo_female =
     map (\<lambda>n. \<lparr> original_name = n, display_name = n, gender = FEMALE \<rparr>) [''C'', ''D'']"

definition demo_pool :: "int \<Rightarrow> StudentPool" where
  "demo_pool nd = projr (StudentPool_init demo_roster demo_female nd)"

subsection \<open>Sequences of pick calls\<close>

text \<open>
  A call of \<^verbatim>\<open>pick\<close> is its gender filter, its \<^verbatim>\<open>remove\<close> flag and the value drawn by
  \<^verbatim>\<open>randint\<close>. The caller (\<^verbatim>\<open>_pick_name\<close>) catches the \<^verbatim>\<open>IndexError\<close> and goes on, so a
  sequence of calls on one pool threads the pool through every call; \<open>picked_seq\<close> records
  for each call the roster index that was picked, or \<open>None\<close> when the call raised.
\<close>

type_synonym pick_call = "Gender \<times> bool \<times> nat"

definition step_idx :: "StudentPool \<Rightarrow> pick_call \<Rightarrow> nat option" where
  "step_idx p c =
     (case c of (g, remove, k) \<Rightarrow>
        (case pick_core g remove k p of Inl e \<Rightarrow> None | Inr (i, p') \<Rightarrow> Some i))"

definition step_pool :: "StudentPool \<Rightarrow> pick_call \<Rightarrow> StudentPool" where
  "step_pool p c = (case c of (g, remove, k) \<Rightarrow> snd (pick g remove k p))"

fun picked_seq :: "StudentPool \<Rightarrow> pick_call list \<Rightarrow> nat option list" where
  "picked_seq p [] = []"
| "picked_seq p (c # cs) = step_idx p c # picked_seq (step_pool p c) cs"

definition pool_after :: "StudentPool \<Rightarrow> pick_call list \<Rightarrow> StudentPool" where
  "pool_after p cs = foldl step_pool p cs"

text \<open>The identity (\<^verbatim>\<open>original_name\<close>) of the student picked by each call.\<close>

definition returned_identities :: "StudentPool \<Rightarrow> pick_call list \<Rightarrow> string option list" where
  "returned_identities p cs =
     map (map_option (\<lambda>i. original_name (students p ! i))) (picked_seq p cs)"

definition all_remove :: "pick_call list \<Rightarrow> bool" where
  "all_remove cs = list_all (\<lambda>c. fst (snd c)) cs"

text \<open>
  The recent window as the constructor leaves it and \<^verbatim>\<open>pick\<close> and \<^verbatim>\<open>reset\<close> keep it:
  no index is queued twice and every queued index has its bit set in \<^verbatim>\<open>_recent_bitmap\<close>.
\<close>

definition recent_window_ok :: "StudentPool \<Rightarrow> bool" where
  "recent_window_ok p \<longleftrightarrow>
     distinct (recent_queue p) \<and> (\<forall>i \<in> set (recent_queue p). recent_bitmap p ! i)"

text \<open>A roster file with the same line twice gives two students with one identity.\<close>

definition twin_roster :: "Student list" where
  "twin_roster =
     [\<lparr> original_name = ''A'', display_name = ''A'', gender = UNKNOWN \<rparr>,
      \<lparr> original_name = ''A'', display_name = ''A'', gender = UNKNOWN \<rparr>]"

definition twin_pool :: "int \<Rightarrow> StudentPool" where
  "twin_pool nd = projr (StudentPool_init twin_roster [] nd)"

section \<open>PickerConfigManager.py: the persisted configuration\<close>

text \<open>
  A configuration is a Python \<^verbatim>\<open>dict\<close> from strings to JSON values. Floats are carried
  by their literal: the model never computes with them except for \<open>float_add1\<close> below.
\<close>

datatype jvalue =
    JNull
  | JBool bool
  | JInt int
  | JFloat string
  | JStr string
  | JList "jvalue list"
  | JObj "(string \<times> jvalue) list"

type_synonym config = "string \<rightharpoonup> jvalue"

text \<open>
  The library functions the class calls are parameters of the model:
  \<^verbatim>\<open>json.dumps(_, ensure_ascii=False, sort_keys=True, indent=2)\<close>, which depends on the
  mapping only and not on the order in which its keys were inserted;
  \<^verbatim>\<open>json.loads\<close>, which raises, or returns a \<^verbatim>\<open>dict\<close>, or returns another JSON value;
  \<^verbatim>\<open>hashlib.sha256(_.encode('utf-8')).hexdigest()\<close>; and \<^verbatim>\<open>x + 1\<close> on a float.
\<close>

datatype decoded = NotJson | JsonMapping config | JsonOther

record runtime =
  json_dumps :: "config \<Rightarrow> string"
  json_loads :: "string \<Rightarrow> decoded"
  sha256_hex :: "string \<Rightarrow> string"
  float_add1 :: "string \<Rightarrow> string"

text \<open>
  The class attributes \<^verbatim>\<open>_config_cache\<close> and \<^verbatim>\<open>_last_save_hash\<close> (\<open>None\<close> until set),
  and the two files the class writes: \<^verbatim>\<open>config.json\<close> and \<^verbatim>\<open>config.tmp\<close>, each with its
  text, or \<open>None\<close> when it does not exist.
\<close>

record ConfigManager =
  config_cache :: "config option"
  last_save_hash :: "string option"
  config_file :: "string option"
  tmp_file :: "string option"

text \<open>
  What the file system does with the two writes of one \<^verbatim>\<open>save_atomic\<close> call:
  both succeed, \<^verbatim>\<open>tmp_file.write_text\<close> raises, or \<^verbatim>\<open>os.replace\<close> raises.
\<close>

datatype io_outcome = IoOk | WriteFails | ReplaceFails

datatype py_error = TypeError | OSError | RuntimeError

definition KEY_INTERNAL_REVISION :: string where
  "KEY_INTERNAL_REVISION = ''_revision''"

definition DEFAULT_CONFIG :: config where
  "DEFAULT_CONFIG = map_of
     [(''animation_time'', JFloat ''0.8''),
      (''floating_x_size'', JInt 100),
      (''floating_y_size'', JInt 100),
      (''speak_speed'', JInt 170),
      (''is_save'', JBool False),
      (''animation'', JBool True),
      (''recite_mode'', JBool False),
      (''pick_again'', JBool True),
      (''pick_balanced'', JBool False),
      (''no_duplicate'', JInt 0),
      (''auto_start'', JBool False),
      (''speak_name'', JBool True),
      (''_revision'', JInt 0),
      (''show_floating'', JBool True),
      (''floating_autostick'', JBool False),
      (''double_floating_window'', JBool False),
      (''floating_image'', JNull),
      (''window_geometry_qt'', JNull),
      (''saved_available_names'', JList []),
      (''picked_count'', JInt 0),
      (''gender_filter'', JStr ''unknown'')]"

text \<open>\<^verbatim>\<open>config_copy.get(cls.KEY_INTERNAL_REVISION, 0)\<close>.\<close>

definition revision_of :: "config \<Rightarrow> jvalue" where
  "revision_of c = (case c KEY_INTERNAL_REVISION of None \<Rightarrow> JInt 0 | Some v \<Rightarrow> v)"

text \<open>
  \<^verbatim>\<open>v + 1\<close> in Python: integer addition on an \<^verbatim>\<open>int\<close> and on a \<^verbatim>\<open>bool\<close>, float
  addition on a \<^verbatim>\<open>float\<close>, \<^verbatim>\<open>TypeError\<close> on \<^verbatim>\<open>None\<close>, a string, a list and a dict.
\<close>

fun py_add1 :: "runtime \<Rightarrow> jvalue \<Rightarrow> py_error + jvalue" where
  "py_add1 rt (JInt n) = Inr (JInt (n + 1))"
| "py_add1 rt (JBool b) = Inr (JInt ((if b then 1 else 0) + 1))"
| "py_add1 rt (JFloat f) = Inr (JFloat (float_add1 rt f))"
| "py_add1 rt JNull = Inl TypeError"
| "py_add1 rt (JStr s) = Inl TypeError"
| "py_add1 rt (JList xs) = Inl TypeError"
| "py_add1 rt (JObj kvs) = Inl TypeError"

text \<open>
  \<^verbatim>\<open>save_atomic\<close>. The deep copy of an immutable value is the value. After the hash test
  the source evaluates \<^verbatim>\<open>'recent_bitmap' in config and isinstance(config['recent_bitmap'],
  bitarray)\<close>, where \<^verbatim>\<open>bitarray\<close> is the module bound by \<^verbatim>\<open>import bitarray\<close>: when the key
  is present, \<^verbatim>\<open>isinstance\<close> raises \<^verbatim>\<open>TypeError\<close> because its second argument is not a
  type. The result is the exception, if any, and the state after the call.
\<close>

definition save_atomic ::
  "runtime \<Rightarrow> io_outcome \<Rightarrow> config \<Rightarrow> ConfigManager \<Rightarrow> py_error option \<times> ConfigManager" where
  "save_atomic rt io config st =
     (let config_copy = config;
          config_str = json_dumps rt config_copy;
          current_hash = sha256_hex rt config_str
      in if Some current_hash = last_save_hash st then (None, st)
         else if ''recent_bitmap'' \<in> dom config then (Some TypeError, st)
         else (case py_add1 rt (revision_of config_copy) of
                 Inl e \<Rightarrow> (Some e, st)
               | Inr revision \<Rightarrow>
                   (let config_copy = config_copy(KEY_INTERNAL_REVISION \<mapsto> revision);
                        config_str = json_dumps rt config_copy
                    in case io of
                         WriteFails \<Rightarrow> (Some OSError, st)
                       | ReplaceFails \<Rightarrow> (Some OSError, st\<lparr> tmp_file := Some config_str \<rparr>)
                       | IoOk \<Rightarrow>
                           (None, st\<lparr> tmp_file := None,
                                      config_file := Some config_str,
                                      config_cache := Some config_copy,
                                      last_save_hash :=
                                        Some (sha256_hex rt config_str) \<rparr>))))"

text \<open>
  \<^verbatim>\<open>_load_internal\<close>. Everything inside the \<^verbatim>\<open>try\<close> that raises, the call of
  \<^verbatim>\<open>save_atomic\<close> included, ends in \<^verbatim>\<open>return cls.DEFAULT_CONFIG.copy()\<close>. A missing
  or unreadable file is \<open>config_file = None\<close>; \<^verbatim>\<open>{**cls.DEFAULT_CONFIG, **config}\<close> raises
  \<^verbatim>\<open>TypeError\<close> when the decoded value is not a \<^verbatim>\<open>dict\<close>.
\<close>

definition load_internal :: "runtime \<Rightarrow> io_outcome \<Rightarrow> ConfigManager \<Rightarrow> config \<times> ConfigManager" where
  "load_internal rt io st =
     (case config_file st of
        None \<Rightarrow> (DEFAULT_CONFIG, st)
      | Some text \<Rightarrow>
          (case json_loads rt text of
             NotJson \<Rightarrow> (DEFAULT_CONFIG, st)
           | JsonOther \<Rightarrow> (DEFAULT_CONFIG, st)
           | JsonMapping loaded \<Rightarrow>
               (let config = DEFAULT_CONFIG ++ loaded
                in case save_atomic rt io config st of
                     (None, st') \<Rightarrow> (config, st')
                   | (Some e, st') \<Rightarrow> (DEFAULT_CONFIG, st'))))"

text \<open>\<^verbatim>\<open>load_cached\<close>: the caller's copy of the cache, and the state after the call.\<close>

definition load_cached :: "runtime \<Rightarrow> io_outcome \<Rightarrow> ConfigManager \<Rightarrow> config \<times> ConfigManager" where
  "load_cached rt io st =
     (case config_cache st of
        None \<Rightarrow> (let (config, st') = load_internal rt io st
                 in (config, st'\<lparr> config_cache := Some config \<rparr>))
      | Some cached \<Rightarrow> (cached, st))"

text \<open>
  The hash is only ever set together with the cache, and the cache is never cleared: in
  every state the class reaches, a missing cache means a missing hash.
\<close>

definition hash_needs_cache :: "ConfigManager \<Rightarrow> bool" where
  "hash_needs_cache st \<longleftrightarrow> (config_cache st = None \<longrightarrow> last_save_hash st = None)"

definition initial_store :: "string option \<Rightarrow> ConfigManager" where
  "initial_store file =
     \<lparr> config_cache = None, last_save_hash = None, config_file = file, tmp_file = None \<rparr>"

subsection \<open>A stand-in runtime for concrete runs\<close>

text \<open>
  For closed examples the library parameters need values. The stand-in serializer prints
  three fields of a mapping (integers in unary), the stand-in decoder reads back the two
  documents used below, and the stand-in hash is the identity.
\<close>

fun toy_show :: "jvalue \<Rightarrow> string" where
  "toy_show JNull = ''null''"
| "toy_show (JBool b) = (if b then ''true'' else ''false'')"
| "toy_show (JInt n) = (if n < 0 then ''-'' else '''') @ replicate (nat \<bar>n\<bar>) (CHR ''1'')"
| "toy_show (JFloat f) = f"
| "toy_show (JStr s) = ''<'' @ s @ ''>''"
| "toy_show (JList xs) = ''[..]''"
| "toy_show (JObj kvs) = ''{..}''"

definition toy_dumps :: "config \<Rightarrow> string" where
  "toy_dumps c =
     concat (map (\<lambda>k. k @ '':'' @ (case c k of None \<Rightarrow> ''~'' | Some v \<Rightarrow> toy_show v) @ '';'')
               [''_revision'', ''picked_count'', ''recent_bitmap''])"

definition toy_saved :: config where
  "toy_saved = [''_revision'' \<mapsto> JInt 7, ''picked_count'' \<mapsto> JInt 3]"

definition toy_bad_revision :: config where
  "toy_bad_revision = [''_revision'' \<mapsto> JStr ''7'', ''picked_count'' \<mapsto> JInt 3]"

definition toy_loads :: "string \<Rightarrow> decoded" where
  "toy_loads text =
     (if text = toy_dumps toy_saved then JsonMapping toy_saved
      else if text = toy_dumps toy_bad_revision then JsonMapping toy_bad_revision
      else NotJson)"

definition toy_runtime :: runtime where
  "toy_runtime =
     \<lparr> json_dumps = toy_dumps, json_loads = toy_loads,
       sha256_hex = (\<lambda>s. s), float_add1 = (\<lambda>f. f) \<rparr>"

text \<open>The store after \<open>toy_saved\<close> (revision 7) has been written.\<close>

definition toy_store :: ConfigManager where
  "toy_store =
     \<lparr> config_cache = Some toy_saved,
       last_save_hash = Some (toy_dumps toy_saved),
       config_file = Some (toy_dumps toy_saved),
       tmp_file = None \<rparr>"

section \<open>ClassNamePicker: loading the roster files\<close>

text \<open>
  \<^verbatim>\<open>_parse_student_file\<close> reads a file line by line. A line is kept unless its
  \<^verbatim>\<open>strip()\<close> is empty or starts with \<^verbatim>\<open>#\<close>; a kept line gives one student whose
  \<open>original_name\<close> is \<^verbatim>\<open>line.rstrip('\n')\<close> and whose \<open>display_name\<close> is the stripped line.
  \<open>isspace\<close> is the whitespace class of \<^verbatim>\<open>str.strip\<close>, a parameter of the model; a
  file is the list of its lines.
\<close>

definition rstrip_newline :: "string \<Rightarrow> string" where
  "rstrip_newline line = rev (dropWhile (\<lambda>c. c = CHR 0x0A) (rev line))"

definition strip :: "(char \<Rightarrow> bool) \<Rightarrow> string \<Rightarrow> string" where
  "strip isspace line = rev (dropWhile isspace (rev (dropWhile isspace line)))"

definition skipped_line :: "(char \<Rightarrow> bool) \<Rightarrow> string \<Rightarrow> bool" where
  "skipped_line isspace line =
     (case strip isspace line of [] \<Rightarrow> True | c # rest \<Rightarrow> c = CHR ''#'')"

definition parse_student_file :: "(char \<Rightarrow> bool) \<Rightarrow> string list \<Rightarrow> Gender \<Rightarrow> Student list" where
  "parse_student_file isspace file_lines default_gender =
     map (\<lambda>line. \<lparr> original_name = rstrip_newline line,
                    display_name = strip isspace line,
                    gender = default_gender \<rparr>)
       (filter (\<lambda>line. \<not> skipped_line isspace line) file_lines)"

text \<open>
  \<^verbatim>\<open>self.no_duplicate >= total\<close>, where \<^verbatim>\<open>self.no_duplicate\<close> is whatever the
  configuration holds under \<^verbatim>\<open>no_duplicate\<close> and \<^verbatim>\<open>total\<close> is an \<^verbatim>\<open>int\<close>: Python
  orders an \<^verbatim>\<open>int\<close>, a \<^verbatim>\<open>bool\<close> or a \<^verbatim>\<open>float\<close> against an \<^verbatim>\<open>int\<close> and raises
  \<^verbatim>\<open>TypeError\<close> for \<^verbatim>\<open>None\<close>, a string, a list and a dict.
\<close>

fun compare_with_int_raises :: "jvalue \<Rightarrow> bool" where
  "compare_with_int_raises (JInt n) = False"
| "compare_with_int_raises (JBool b) = False"
| "compare_with_int_raises (JFloat f) = False"
| "compare_with_int_raises JNull = True"
| "compare_with_int_raises (JStr s) = True"
| "compare_with_int_raises (JList xs) = True"
| "compare_with_int_raises (JObj kvs) = True"

text \<open>
  One pass of the \<^verbatim>\<open>while\<close> loop of \<^verbatim>\<open>_load_student_data\<close>, for files that exist
  and decode (the handlers for \<^verbatim>\<open>FileNotFoundError\<close> and \<^verbatim>\<open>UnicodeDecodeError\<close>
  concern reading the files). \<open>no_duplicate_setting\<close> is the value read from the
  configuration before the loop. Both files are parsed and the female names that are not
  roster names are collected; if there are any, the repair dialog
  \<^verbatim>\<open>DataFixDialog(invalid_female)\<close> is shown instead of building the pool
  (\<open>SubsetViolation\<close>; the loop then retries after a repair, or the program exits).
  Otherwise \<^verbatim>\<open>StudentPool(all_students, female_students)\<close> is called and the setting is
  compared with the size of the roster; the adjustment that may follow changes the window
  only, and the function returns with the pool. An exception of the call or of the
  comparison is caught by \<^verbatim>\<open>except Exception\<close>, whose handler calls the constructor
  again on two one-element lists holding a fixed string (written \<open>''load failed''\<close> here);
  what that second call raises leaves the function.
\<close>

definition load_student_data_attempt ::
  "(char \<Rightarrow> bool) \<Rightarrow> jvalue \<Rightarrow> string list \<Rightarrow> string list \<Rightarrow> build_error + StudentPool" where
  "load_student_data_attempt isspace no_duplicate_setting names_file g_names_file =
     (let all_students = parse_student_file isspace names_file UNKNOWN;
          female_students = parse_student_file isspace g_names_file FEMALE;
          all_names = set (map original_name all_students);
          female_names = set (map original_name female_students);
          invalid_female = female_names - all_names;
          fallback = StudentPool_call [StrItem ''load failed''] [StrItem ''load failed''] 0
      in if invalid_female \<noteq> {} then Inl (SubsetViolation invalid_female)
         else (case StudentPool_call (map StudentItem all_students)
                      (map StudentItem female_students) 0 of
                 Inl e \<Rightarrow> fallback
               | Inr pool \<Rightarrow>
                   (if compare_with_int_raises no_duplicate_setting then fallback
                    else Inr pool)))"

text \<open>The ASCII whitespace characters, for concrete files.\<close>

definition ascii_space :: "char \<Rightarrow> bool" where
  "ascii_space c \<longleftrightarrow> c \<in> set [CHR '' '', CHR 0x09, CHR 0x0A, CHR 0x0B, CHR 0x0C, CHR 0x0D]"

section \<open>ClassNamePicker: coalescing save requests\<close>

text \<open>
  \<^verbatim>\<open>SaveDebouncer\<close> wraps a single-shot \<^verbatim>\<open>QTimer\<close>. Time is a count of milliseconds:
  \<^verbatim>\<open>timer.start(d)\<close> at time \<open>now\<close> makes the timer active with deadline \<open>now + d\<close>,
  replacing any earlier deadline, and \<^verbatim>\<open>timer.stop()\<close> makes it inactive.
\<close>

definition CONFIG_SAVE_DELAY :: nat where
  "CONFIG_SAVE_DELAY = 300"

record SaveDebouncer =
  timer_active :: bool
  timer_deadline :: nat
  is_pending :: bool
  last_flush_time :: nat

definition debouncer_start :: "nat \<Rightarrow> nat \<Rightarrow> SaveDebouncer \<Rightarrow> SaveDebouncer" where
  "debouncer_start now delay d =
     (let d1 = (if is_pending d then d\<lparr> timer_active := False \<rparr> else d)
      in d1\<lparr> timer_active := True, timer_deadline := now + delay, is_pending := True \<rparr>)"

definition debouncer_stop :: "SaveDebouncer \<Rightarrow> SaveDebouncer" where
  "debouncer_stop d = d\<lparr> timer_active := False, is_pending := False \<rparr>"

text \<open>
  The part of \<^verbatim>\<open>PickName\<close> that \<^verbatim>\<open>request_save\<close> and \<^verbatim>\<open>_flush_all_saves\<close> touch:
  the pending reasons \<^verbatim>\<open>_save_queue\<close> (a Python set, so finite), the debouncer, and the
  deadlines of the retries scheduled with \<^verbatim>\<open>QTimer.singleShot(1000, _)\<close>. \<open>flush_log\<close>
  is a record, kept for the statements below, of the reasons each flush took from the queue.
\<close>

record SaveState =
  save_queue :: "string fset"
  debounce_timer :: SaveDebouncer
  retry_timers :: "nat list"
  flush_log :: "string fset list"

text \<open>
  What a flush does after it has emptied the queue depends on the window and on the
  configuration store: it finds nothing to update and returns, or it calls
  \<^verbatim>\<open>ConfigManager.save_atomic\<close>, which returns or raises. Only \<^verbatim>\<open>RuntimeError\<close> is
  caught: the reasons go back into the queue and a retry is scheduled one second later.
  Any other exception leaves the function.
\<close>

datatype flush_body = NoUpdates | SaveReturned "py_error option"

definition flush_all_saves ::
  "flush_body \<Rightarrow> nat \<Rightarrow> SaveState \<Rightarrow> py_error option \<times> SaveState" where
  "flush_all_saves body now s =
     (if save_queue s = {||} then (None, s)
      else
        (let reasons_to_process = save_queue s;
             s1 = s\<lparr> save_queue := {||}, flush_log := flush_log s @ [reasons_to_process] \<rparr>
         in case body of
              NoUpdates \<Rightarrow> (None, s1)
            | SaveReturned None \<Rightarrow> (None, s1)
            | SaveReturned (Some e) \<Rightarrow>
                (if e = RuntimeError
                 then (None, s1\<lparr> save_queue := save_queue s1 |\<union>| reasons_to_process,
                                  retry_timers := retry_timers s1 @ [now + 1000] \<rparr>)
                 else (Some e, s1))))"

text \<open>
  \<^verbatim>\<open>request_save(*reasons)\<close> at time \<open>now\<close>. The result is the exception that leaves
  the call, if any, and the state after it.
\<close>

definition request_save ::
  "flush_body \<Rightarrow> nat \<Rightarrow> string list \<Rightarrow> SaveState \<Rightarrow> py_error option \<times> SaveState" where
  "request_save body now reasons s =
     (let q1 = (if ''geometry'' \<in> set reasons \<and> ''geometry'' |\<in>| save_queue s
                then save_queue s |-| {|''geometry''|} else save_queue s);
          q2 = q1 |\<union>| fset_of_list reasons;
          s2 = s\<lparr> save_queue := q2 \<rparr>
      in if 5 < fcard q2
         then flush_all_saves body now
                (s2\<lparr> debounce_timer := debouncer_stop (debounce_timer s2) \<rparr>)
         else (None, s2\<lparr> debounce_timer :=
                          debouncer_start now CONFIG_SAVE_DELAY
                            (debouncer_stop (debounce_timer s2)) \<rparr>))"

text \<open>The state right after \<^verbatim>\<open>__init__\<close>, with the clock reading \<open>t0\<close>.\<close>

definition initial_save_state :: "nat \<Rightarrow> SaveState" where
  "initial_save_state t0 =
     \<lparr> save_queue = {||},
       debounce_timer = \<lparr> timer_active = False, timer_deadline = 0, is_pending = False,
                          last_flush_time = t0 \<rparr>,
       retry_timers = [],
       flush_log = [] \<rparr>"

section \<open>Properties of the pool\<close>

subsection \<open>The scan finds the k-th candidate\<close>


lemma set_bit_positions_Cons:
  "set_bit_positions (b # bs) = (if b then [0] else []) @ map Suc (set_bit_positions bs)"
proof -
  have "[0..<Suc (length bs)] = 0 # map Suc [0..<length bs]"
    by (simp add: upt_conv_Cons map_Suc_upt del: upt_Suc)
  then show ?thesis
    by (simp add: set_bit_positions_def filter_map comp_def del: upt_Suc)
qed

lemma set_bit_positions_Nil: "set_bit_positions [] = []"
  by (simp add: set_bit_positions_def)

lemma length_set_bit_positions: "length (set_bit_positions bs) = count_true bs"
  by (induction bs) (simp_all add: set_bit_positions_Cons set_bit_positions_Nil count_true_def)

lemma scan_kth_positions:
  "count \<le> target \<Longrightarrow>
   scan_kth bs idx count target =
     (if target - count < length (set_bit_positions bs)
      then Some (idx + set_bit_positions bs ! (target - count)) else None)"
proof (induction bs arbitrary: idx count)
  case Nil
  then show ?case by (simp add: set_bit_positions_Nil)
next
  case (Cons b bs)
  show ?case
  proof (cases b)
    case False
    with Cons show ?thesis by (simp add: set_bit_positions_Cons)
  next
    case True
    show ?thesis
    proof (cases "count = target")
      case True
      with \<open>b\<close> show ?thesis by (simp add: set_bit_positions_Cons)
    next
      case False
      with Cons.prems have lt: "Suc count \<le> target" by simp
      then obtain d where d: "target - count = Suc d" "target - Suc count = d"
        by (metis Suc_diff_le diff_Suc_Suc)
      from Cons.IH [OF lt, of "Suc idx"] \<open>b\<close> False d show ?thesis
        by (simp add: set_bit_positions_Cons)
    qed
  qed
qed

lemma set_set_bit_positions: "set (set_bit_positions bs) = {i. i < length bs \<and> bs ! i}"
  by (auto simp: set_bit_positions_def)

lemma distinct_set_bit_positions: "distinct (set_bit_positions bs)"
  by (simp add: set_bit_positions_def)


lemma length_pick_candidates:
  "pool_wf p \<Longrightarrow> length (pick_candidates p g) = length (students p)"
  by (simp add: pool_wf_def pick_candidates_def get_candidate_bitmap_def bit_and_def bit_not_def Let_def)

lemma students_mark_removed [simp]: "students (mark_removed r i p) = students p"
  by (simp add: mark_removed_def)

lemma students_evict_oldest [simp]: "students (evict_oldest p) = students p"
  by (simp add: evict_oldest_def split: list.splits)

lemma students_remember_recent [simp]: "students (remember_recent i p) = students p"
  by (simp add: remember_recent_def Let_def)

lemma scan_kth_from_start:
  "scan_kth bs 0 0 k = (if k < count_true bs then Some (set_bit_positions bs ! k) else None)"
  using scan_kth_positions [of 0 k bs 0] by (simp add: length_set_bit_positions)

lemma pick_core_success:
  "k < count_true (pick_candidates p g) \<Longrightarrow>
   pick_core g remove k p =
     Inr (set_bit_positions (pick_candidates p g) ! k,
          remember_recent (set_bit_positions (pick_candidates p g) ! k)
            (mark_removed remove (set_bit_positions (pick_candidates p g) ! k) p))"
  by (simp add: pick_core_def Let_def scan_kth_from_start)

lemma pick_core_empty:
  "count_true (pick_candidates p g) = 0 \<Longrightarrow> pick_core g remove k p = Inl (NoCandidates g)"
  by (simp add: pick_core_def Let_def)

lemma pick_core_out_of_range:
  "0 < count_true (pick_candidates p g) \<Longrightarrow> count_true (pick_candidates p g) \<le> k \<Longrightarrow>
   pick_core g remove k p = Inl UnboundPickedIdx"
  by (simp add: pick_core_def Let_def scan_kth_from_start)

lemma kth_candidate_is_candidate:
  "k < count_true bs \<Longrightarrow> set_bit_positions bs ! k < length bs \<and> bs ! (set_bit_positions bs ! k)"
proof -
  assume "k < count_true bs"
  then have "set_bit_positions bs ! k \<in> set (set_bit_positions bs)"
    by (simp add: length_set_bit_positions)
  then show ?thesis by (simp add: set_set_bit_positions)
qed

lemma bij_betw_set_bit_positions:
  "bij_betw (\<lambda>j. set_bit_positions bs ! j) {..<count_true bs} {i. i < length bs \<and> bs ! i}"
  using bij_betw_nth [OF distinct_set_bit_positions, of "{..<count_true bs}" bs "{i. i < length bs \<and> bs ! i}"]
  by (simp add: length_set_bit_positions set_set_bit_positions)

lemma length_mark_female [simp]: "length (mark_female n2i bm fs) = length bm"
proof -
  have "length (foldl (\<lambda>b s. case n2i (original_name s) of None \<Rightarrow> b | Some i \<Rightarrow> b[i := True]) bm fs)
      = length bm"
    by (induction fs arbitrary: bm) (simp_all split: option.splits)
  then show ?thesis by (simp add: mark_female_def)
qed

lemma StudentPool_init_wf:
  "StudentPool_init all_students female_students nd = Inr p \<Longrightarrow> pool_wf p"
  by (auto simp: StudentPool_init_def pool_wf_def Let_def split: if_splits)

lemma demo_pool_init: "StudentPool_init demo_roster demo_female nd = Inr (demo_pool nd)"
  by (simp add: demo_pool_def StudentPool_init_def demo_roster_def Let_def)

lemma demo_pool_wf: "pool_wf (demo_pool nd)"
  using demo_pool_init by (rule StudentPool_init_wf)

lemma demo_name_to_idx:
  "build_name_to_idx demo_roster =
     [''A'' \<mapsto> 0, ''B'' \<mapsto> 1, ''C'' \<mapsto> 2, ''D'' \<mapsto> 3, ''E'' \<mapsto> 4]"
  by (simp add: build_name_to_idx_def demo_roster_def eval_nat_numeral)

lemma demo_pool_fields:
  "students (demo_pool nd) = demo_roster"
  "female_bitmap (demo_pool nd) = [False, False, True, True, False]"
  "bit_available (demo_pool nd) = [True, True, True, True, True]"
  "bit_picked (demo_pool nd) = [False, False, False, False, False]"
  "recent_bitmap (demo_pool nd) = [False, False, False, False, False]"
  "recent_queue (demo_pool nd) = []"
  "no_duplicate (demo_pool nd) = nat (max 0 nd)"
  by (simp_all add: demo_pool_def StudentPool_init_def Let_def demo_name_to_idx mark_female_def
      demo_female_def, simp_all add: demo_roster_def)

lemma demo_candidates_female:
  "pick_candidates (demo_pool 0) FEMALE = [False, False, True, True, False]"
  by (simp add: pick_candidates_def get_candidate_bitmap_def demo_pool_fields bit_and_def)

subsection \<open>What a successful pick changes\<close>

lemma pick_core_InrD:
  assumes "pick_core g remove k p = Inr (i, p')"
  shows "k < count_true (pick_candidates p g)"
    and "i = set_bit_positions (pick_candidates p g) ! k"
    and "p' = remember_recent i (mark_removed remove i p)"
proof -
  from assms have pos: "0 < count_true (pick_candidates p g)"
    by (auto simp: pick_core_def Let_def split: if_splits)
  show k: "k < count_true (pick_candidates p g)"
  proof (rule ccontr)
    assume "\<not> k < count_true (pick_candidates p g)"
    with pos assms show False by (simp add: pick_core_out_of_range)
  qed
  from assms pick_core_success [OF k, of remove]
  show "i = set_bit_positions (pick_candidates p g) ! k"
    and "p' = remember_recent i (mark_removed remove i p)"
    by auto
qed

lemma pick_core_candidate:
  assumes "pool_wf p" "pick_core g remove k p = Inr (i, p')"
  shows "i < length (students p)" and "pick_candidates p g ! i"
  using pick_core_InrD(1,2) [OF assms(2)] kth_candidate_is_candidate [of k "pick_candidates p g"]
    length_pick_candidates [OF assms(1), of g]
  by simp_all

lemma mark_removed_wf: "pool_wf p \<Longrightarrow> pool_wf (mark_removed remove i p)"
  by (simp add: pool_wf_def mark_removed_def)

lemma remember_recent_wf:
  assumes "pool_wf p" "i < length (students p)"
  shows "pool_wf (remember_recent i p)"
proof (cases "no_duplicate p > 0")
  case False
  with assms show ?thesis by (simp add: remember_recent_def)
next
  case True
  show ?thesis
  proof (cases "recent_queue p")
    case Nil
    with True assms show ?thesis
      by (auto simp: remember_recent_def evict_oldest_def pool_wf_def Let_def deque_append_def)
  next
    case (Cons a q)
    with True assms show ?thesis
      by (auto simp: remember_recent_def evict_oldest_def pool_wf_def Let_def deque_append_def)
  qed
qed

lemma pick_core_wf:
  assumes "pool_wf p" "pick_core g remove k p = Inr (i, p')"
  shows "pool_wf p'"
proof -
  have "pool_wf (mark_removed remove i p)" using assms(1) by (rule mark_removed_wf)
  moreover have "i < length (students (mark_removed remove i p))"
    using pick_core_candidate(1) [OF assms] by simp
  ultimately show ?thesis
    unfolding pick_core_InrD(3) [OF assms(2)] by (rule remember_recent_wf)
qed

lemma pick_wf: "pool_wf p \<Longrightarrow> pool_wf (snd (pick g remove k p))"
  by (auto simp: pick_def split: sum.splits dest: pick_core_wf)

lemma pick_core_available:
  "pick_core g remove k p = Inr (i, p') \<Longrightarrow>
   bit_available p' = (if remove then (bit_available p)[i := False] else bit_available p)"
  by (drule pick_core_InrD(3))
     (simp add: remember_recent_def mark_removed_def evict_oldest_def Let_def split: list.splits)

lemma pick_core_picked:
  "pick_core g remove k p = Inr (i, p') \<Longrightarrow>
   bit_picked p' = (if remove then (bit_picked p)[i := True] else bit_picked p)"
  by (drule pick_core_InrD(3))
     (simp add: remember_recent_def mark_removed_def evict_oldest_def Let_def split: list.splits)

lemma pick_core_frame:
  "pick_core g remove k p = Inr (i, p') \<Longrightarrow>
   students p' = students p \<and> name_to_idx p' = name_to_idx p \<and>
   female_bitmap p' = female_bitmap p \<and> no_duplicate p' = no_duplicate p \<and>
   queue_maxlen p' = queue_maxlen p"
  by (drule pick_core_InrD(3))
     (simp add: remember_recent_def mark_removed_def evict_oldest_def Let_def split: list.splits)

lemma pick_core_recent:
  assumes "pool_wf p" "pick_core g remove k p = Inr (i, p')" "0 < no_duplicate p"
  shows "recent_queue p' =
           (if no_duplicate p \<le> length (recent_queue p) then tl (recent_queue p)
            else recent_queue p) @ [i]"
    and "recent_bitmap p' =
           (if no_duplicate p \<le> length (recent_queue p)
            then (recent_bitmap p)[hd (recent_queue p) := False]
            else recent_bitmap p)[i := True]"
  using assms(1,3) unfolding pick_core_InrD(3) [OF assms(2)]
  by (cases "recent_queue p";
      auto simp: remember_recent_def mark_removed_def evict_oldest_def Let_def pool_wf_def
        deque_append_def)+

lemma pick_core_recent_off:
  "pick_core g remove k p = Inr (i, p') \<Longrightarrow> no_duplicate p = 0 \<Longrightarrow>
   recent_queue p' = recent_queue p \<and> recent_bitmap p' = recent_bitmap p"
  by (drule pick_core_InrD(3)) (simp add: remember_recent_def mark_removed_def)

subsection \<open>Sequences of calls\<close>

lemma length_picked_seq [simp]: "length (picked_seq p cs) = length cs"
  by (induction cs arbitrary: p) simp_all

lemma picked_seq_append:
  "picked_seq p (xs @ ys) = picked_seq p xs @ picked_seq (pool_after p xs) ys"
  by (induction xs arbitrary: p) (simp_all add: pool_after_def)

lemma pool_after_Nil [simp]: "pool_after p [] = p"
  by (simp add: pool_after_def)

lemma pool_after_Cons [simp]: "pool_after p (c # cs) = pool_after (step_pool p c) cs"
  by (simp add: pool_after_def)

lemma pool_after_append: "pool_after p (xs @ ys) = pool_after (pool_after p xs) ys"
  by (simp add: pool_after_def)

lemma step_cases:
  obtains (raised) "step_idx p c = None" "step_pool p c = p"
  | (picked) g remove k i p' where "c = (g, remove, k)" "pick_core g remove k p = Inr (i, p')"
      "step_idx p c = Some i" "step_pool p c = p'"
proof (cases c)
  case (fields g remove k)
  show ?thesis
  proof (cases "pick_core g remove k p")
    case (Inl e)
    with fields have "step_idx p c = None" "step_pool p c = p"
      by (simp_all add: step_idx_def step_pool_def pick_def)
    then show ?thesis by (rule raised)
  next
    case (Inr r)
    obtain i p' where r: "r = (i, p')" by (cases r)
    with Inr fields have "step_idx p c = Some i" "step_pool p c = p'"
      by (simp_all add: step_idx_def step_pool_def pick_def)
    with fields Inr r show ?thesis by (auto intro: picked)
  qed
qed

lemma step_pool_wf: "pool_wf p \<Longrightarrow> pool_wf (step_pool p c)"
  by (cases c) (simp add: step_pool_def pick_wf)

lemma pool_after_wf: "pool_wf p \<Longrightarrow> pool_wf (pool_after p cs)"
  by (induction cs arbitrary: p) (simp_all add: step_pool_wf)

lemma step_pool_students [simp]: "students (step_pool p c) = students p"
  by (rule step_cases [of p c]) (auto dest: pick_core_frame)

lemma pool_after_students [simp]: "students (pool_after p cs) = students p"
  by (induction cs arbitrary: p) simp_all

lemma step_pool_no_duplicate [simp]: "no_duplicate (step_pool p c) = no_duplicate p"
  by (rule step_cases [of p c]) (auto dest: pick_core_frame)

lemma pool_after_no_duplicate [simp]: "no_duplicate (pool_after p cs) = no_duplicate p"
  by (induction cs arbitrary: p) simp_all


subsection \<open>Picks never make a student available\<close>

lemma nth_update_cases: "xs[j := v] ! i = (if i = j \<and> j < length xs then v else xs ! i)"
  by (cases "j < length xs") (auto simp: nth_list_update list_update_beyond)

lemma candidate_available:
  assumes "pool_wf p" "i < length (students p)" "pick_candidates p g ! i"
  shows "bit_available p ! i"
  using assms
  by (auto simp: pool_wf_def pick_candidates_def get_candidate_bitmap_def bit_and_def bit_not_def
      Let_def split: if_splits)

lemma candidate_not_recent:
  assumes "pool_wf p" "i < length (students p)" "pick_candidates p g ! i" "0 < no_duplicate p"
  shows "\<not> recent_bitmap p ! i"
  using assms
  by (auto simp: pool_wf_def pick_candidates_def get_candidate_bitmap_def bit_and_def bit_not_def
      Let_def split: if_splits)

lemma unavailable_not_candidate:
  "pool_wf p \<Longrightarrow> i < length (students p) \<Longrightarrow> \<not> bit_available p ! i \<Longrightarrow>
   \<not> pick_candidates p g ! i"
  using candidate_available by blast

lemma step_keeps_unavailable:
  assumes "pool_wf p" "i < length (students p)" "\<not> bit_available p ! i"
  shows "step_idx p c \<noteq> Some i" and "\<not> bit_available (step_pool p c) ! i"
proof -
  show "step_idx p c \<noteq> Some i"
  proof (rule step_cases [of p c])
    assume "step_idx p c = None" then show ?thesis by simp
  next
    fix g remove k j p'
    assume pc: "pick_core g remove k p = Inr (j, p')" and idx: "step_idx p c = Some j"
    from pick_core_candidate(2) [OF assms(1) pc] unavailable_not_candidate [OF assms, of g]
    have "j \<noteq> i" by auto
    with idx show ?thesis by simp
  qed
  show "\<not> bit_available (step_pool p c) ! i"
  proof (rule step_cases [of p c])
    assume "step_pool p c = p" with assms(3) show ?thesis by simp
  next
    fix g remove k j p'
    assume pc: "pick_core g remove k p = Inr (j, p')" and sp: "step_pool p c = p'"
    from pick_core_available [OF pc] assms(3) have "\<not> bit_available p' ! i"
      by (auto simp: nth_update_cases split: if_splits)
    with sp show ?thesis by simp
  qed
qed

lemma step_keeps_picked:
  assumes "bit_picked p ! i"
  shows "bit_picked (step_pool p c) ! i"
proof (rule step_cases [of p c])
  assume "step_pool p c = p" with assms show ?thesis by simp
next
  fix g remove k j p'
  assume pc: "pick_core g remove k p = Inr (j, p')" and sp: "step_pool p c = p'"
  from pick_core_picked [OF pc] assms have "bit_picked p' ! i"
    by (auto simp: nth_update_cases split: if_splits)
  with sp show ?thesis by simp
qed

lemma run_keeps_unavailable:
  "pool_wf p \<Longrightarrow> i < length (students p) \<Longrightarrow> \<not> bit_available p ! i \<Longrightarrow>
   Some i \<notin> set (picked_seq p cs) \<and> \<not> bit_available (pool_after p cs) ! i"
proof (induction cs arbitrary: p)
  case Nil
  then show ?case by simp
next
  case (Cons c cs)
  from step_keeps_unavailable [OF Cons.prems, of c]
  have a: "step_idx p c \<noteq> Some i" and b: "\<not> bit_available (step_pool p c) ! i" by simp_all
  from Cons.IH [OF step_pool_wf [OF Cons.prems(1)] _ b] Cons.prems(2) a
  show ?case by auto
qed

lemma run_keeps_picked: "bit_picked p ! i \<Longrightarrow> bit_picked (pool_after p cs) ! i"
  by (induction cs arbitrary: p) (simp_all add: step_keeps_picked)

lemma step_remove_clears:
  assumes "pool_wf p" "step_idx p c = Some i" "fst (snd c)"
  shows "i < length (students p)" and "\<not> bit_available (step_pool p c) ! i"
    and "bit_picked (step_pool p c) ! i"
proof -
  obtain g remove k p' where c: "c = (g, remove, k)"
    and pc: "pick_core g remove k p = Inr (i, p')" and sp: "step_pool p c = p'"
    using assms(2) by (rule_tac step_cases [of p c]) auto
  from assms(3) c have r: remove by simp
  show i: "i < length (students p)" using pick_core_candidate(1) [OF assms(1) pc] .
  with assms(1) have "i < length (bit_available p)" "i < length (bit_picked p)"
    by (simp_all add: pool_wf_def)
  with pick_core_available [OF pc] pick_core_picked [OF pc] r sp
  show "\<not> bit_available (step_pool p c) ! i" and "bit_picked (step_pool p c) ! i"
    by simp_all
qed

lemma picked_seq_nth:
  "n < length cs \<Longrightarrow> picked_seq p cs ! n = step_idx (pool_after p (take n cs)) (cs ! n)"
proof (induction cs arbitrary: p n)
  case Nil
  then show ?case by simp
next
  case (Cons c cs)
  then show ?case by (cases n) simp_all
qed

lemma pool_after_take_Suc:
  "n < length cs \<Longrightarrow>
   pool_after p (take (Suc n) cs) = step_pool (pool_after p (take n cs)) (cs ! n)"
  by (simp add: take_Suc_conv_app_nth pool_after_append)

lemma pool_after_take_later:
  assumes "t < s"
  shows "pool_after p (take s cs) =
         pool_after (pool_after p (take (Suc t) cs)) (drop (Suc t) (take s cs))"
proof -
  have "take (Suc t) (take s cs) = take (Suc t) cs"
    using assms by (simp add: min_def)
  then have "take s cs = take (Suc t) cs @ drop (Suc t) (take s cs)"
    by (metis append_take_drop_id)
  then show ?thesis by (metis pool_after_append)
qed

lemma step_idx_in_roster:
  "pool_wf p \<Longrightarrow> step_idx p c = Some j \<Longrightarrow> j < length (students p)"
  by (rule step_cases [of p c]) (auto dest: pick_core_candidate(1))

lemma all_remove_nth: "all_remove cs \<Longrightarrow> n < length cs \<Longrightarrow> fst (snd (cs ! n))"
  by (simp add: all_remove_def list_all_length)

subsection \<open>reset\<close>

lemma reset_wf: "pool_wf p \<Longrightarrow> pool_wf (reset g p)"
  by (simp add: pool_wf_def reset_def Let_def setall_def bit_or_def bit_and_def bit_not_def)

lemma reset_recent_window_ok: "recent_window_ok (reset g p)"
  by (simp add: recent_window_ok_def reset_def Let_def)

subsection \<open>The name dictionary\<close>

lemma build_name_to_idx_snoc:
  "build_name_to_idx (xs @ [x]) = (build_name_to_idx xs)(original_name x \<mapsto> length xs)"
  by (simp add: build_name_to_idx_def)

lemma build_name_to_idx_Nil [simp]: "build_name_to_idx [] = Map.empty"
  by (simp add: build_name_to_idx_def)

lemma build_name_to_idx_SomeD:
  "build_name_to_idx xs n = Some i \<Longrightarrow> i < length xs \<and> original_name (xs ! i) = n"
proof (induction xs arbitrary: i rule: rev_induct)
  case Nil
  then show ?case by simp
next
  case (snoc x xs)
  then show ?case
    by (auto simp: build_name_to_idx_snoc nth_append less_Suc_eq split: if_splits)
qed

lemma build_name_to_idx_known:
  "n \<in> original_name ` set xs \<Longrightarrow> \<exists>i. build_name_to_idx xs n = Some i"
  by (induction xs rule: rev_induct) (auto simp: build_name_to_idx_snoc)

subsection \<open>restore\<close>

lemma restore_one_frame [simp]:
  "students (restore_one p n) = students p"
  "name_to_idx (restore_one p n) = name_to_idx p"
  "length (bit_available (restore_one p n)) = length (bit_available p)"
  by (simp_all add: restore_one_def split: option.splits)

lemma foldl_restore_one_frame [simp]:
  "students (foldl restore_one p ns) = students p"
  "name_to_idx (foldl restore_one p ns) = name_to_idx p"
  "length (bit_available (foldl restore_one p ns)) = length (bit_available p)"
  by (induction ns arbitrary: p) simp_all

lemma restore_one_available:
  "i < length (bit_available p) \<Longrightarrow>
   bit_available (restore_one p n) ! i \<longleftrightarrow> bit_available p ! i \<or> name_to_idx p n = Some i"
  by (auto simp: restore_one_def nth_update_cases split: option.splits)

lemma foldl_restore_one_available:
  "i < length (bit_available p) \<Longrightarrow>
   bit_available (foldl restore_one p ns) ! i \<longleftrightarrow>
     bit_available p ! i \<or> (\<exists>n \<in> set ns. name_to_idx p n = Some i)"
proof (induction ns arbitrary: p)
  case Nil
  then show ?case by simp
next
  case (Cons n ns)
  from Cons.prems have "i < length (bit_available (restore_one p n))" by simp
  from Cons.IH [OF this] Cons.prems show ?case
    by (auto simp: restore_one_available)
qed

lemma restore_available_bits:
  assumes "pool_wf p" "i < length (students p)"
  shows "bit_available (restore_available_names names p) ! i \<longleftrightarrow>
         (\<exists>n \<in> set names. name_to_idx p n = Some i)"
proof (cases "names = []")
  case True
  with assms show ?thesis
    by (simp add: restore_available_names_def Let_def setall_def pool_wf_def)
next
  case False
  let ?p1 = "p\<lparr> bit_available := setall False (bit_available p),
                 bit_picked := setall True (bit_picked p) \<rparr>"
  from assms have "i < length (bit_available ?p1)" by (simp add: setall_def pool_wf_def)
  from foldl_restore_one_available [OF this, of names] False assms show ?thesis
    by (simp add: restore_available_names_def Let_def setall_def pool_wf_def)
qed

lemma restore_students [simp]: "students (restore_available_names names p) = students p"
  by (simp add: restore_available_names_def Let_def)

lemma restore_one_wf: "pool_wf p \<Longrightarrow> pool_wf (restore_one p n)"
  by (auto simp: pool_wf_def restore_one_def split: option.splits)

lemma restore_wf: "pool_wf p \<Longrightarrow> pool_wf (restore_available_names names p)"
proof -
  assume wf: "pool_wf p"
  have fold: "pool_wf q \<Longrightarrow> pool_wf (foldl restore_one q ns)" for q ns
    by (induction ns arbitrary: q) (simp_all add: restore_one_wf)
  from wf have "pool_wf (p\<lparr> bit_available := setall False (bit_available p),
                             bit_picked := setall True (bit_picked p) \<rparr>)"
    by (simp add: pool_wf_def setall_def)
  with fold show ?thesis by (simp add: restore_available_names_def Let_def)
qed

subsection \<open>The recent window\<close>

lemma StudentPool_init_recent_ok:
  "StudentPool_init all_students female_students nd = Inr p \<Longrightarrow> recent_window_ok p"
  by (auto simp: StudentPool_init_def recent_window_ok_def Let_def split: if_splits)

lemma pick_core_recent_ok:
  assumes wf: "pool_wf p" and ok: "recent_window_ok p"
    and pc: "pick_core g remove k p = Inr (j, p')"
  shows "recent_window_ok p'"
proof (cases "0 < no_duplicate p")
  case False
  with pick_core_recent_off [OF pc] ok show ?thesis by (simp add: recent_window_ok_def)
next
  case True
  let ?q = "recent_queue p" and ?rb = "recent_bitmap p"
  have j: "j < length (students p)" and cand: "pick_candidates p g ! j"
    using pick_core_candidate [OF wf pc] by simp_all
  have jlen: "j < length ?rb" using j wf by (simp add: pool_wf_def)
  have notrec: "\<not> ?rb ! j" using candidate_not_recent [OF wf j cand True] .
  from ok have d: "distinct ?q" and bits: "\<forall>x \<in> set ?q. ?rb ! x"
    by (simp_all add: recent_window_ok_def)
  from bits notrec have jq: "j \<notin> set ?q" by blast
  show ?thesis
  proof (cases "no_duplicate p \<le> length ?q")
    case False
    with pick_core_recent [OF wf pc True]
    have q': "recent_queue p' = ?q @ [j]" and rb': "recent_bitmap p' = ?rb[j := True]"
      by simp_all
    from d jq bits jlen show ?thesis
      by (auto simp: recent_window_ok_def q' rb' nth_update_cases)
  next
    case full: True
    with True obtain a rest where q: "?q = a # rest" by (cases ?q) auto
    from full pick_core_recent [OF wf pc True] q
    have q': "recent_queue p' = rest @ [j]"
      and rb': "recent_bitmap p' = ?rb[a := False, j := True]"
      by simp_all
    from d q have "a \<notin> set rest" "distinct rest" by simp_all
    with jq bits jlen q show ?thesis
      by (auto simp: recent_window_ok_def q' rb' nth_update_cases)
  qed
qed

lemma step_pool_recent_ok:
  "pool_wf p \<Longrightarrow> recent_window_ok p \<Longrightarrow> recent_window_ok (step_pool p c)"
  by (rule step_cases [of p c]) (auto dest: pick_core_recent_ok)

lemma pool_after_recent_ok:
  "pool_wf p \<Longrightarrow> recent_window_ok p \<Longrightarrow> recent_window_ok (pool_after p cs)"
  by (induction cs arbitrary: p) (simp_all add: step_pool_recent_ok step_pool_wf)

lemma recent_not_picked:
  assumes wf: "pool_wf p" and nd: "0 < no_duplicate p"
    and i: "i < length (students p)" and r: "recent_bitmap p ! i"
  shows "step_idx p c \<noteq> Some i"
proof (rule step_cases [of p c])
  assume "step_idx p c = None" then show ?thesis by simp
next
  fix g remove k j p'
  assume pc: "pick_core g remove k p = Inr (j, p')" and idx: "step_idx p c = Some j"
  from pick_core_candidate [OF wf pc] candidate_not_recent [OF wf _ _ nd, of j g] r
  have "j \<noteq> i" by auto
  with idx show ?thesis by simp
qed

lemma recent_guard:
  "pool_wf p \<Longrightarrow> recent_window_ok p \<Longrightarrow> 0 < no_duplicate p \<Longrightarrow>
   recent_queue p = xs @ i # ys \<Longrightarrow> length ys + length cs \<le> no_duplicate p \<Longrightarrow>
   Some i \<notin> set (picked_seq p cs)"
proof (induction cs arbitrary: p xs ys)
  case Nil
  then show ?case by simp
next
  case (Cons c cs)
  note wf = Cons.prems(1) and ok = Cons.prems(2) and nd = Cons.prems(3)
    and q = Cons.prems(4) and len = Cons.prems(5)
  from wf q have i: "i < length (students p)" by (simp add: pool_wf_def)
  from ok q have r: "recent_bitmap p ! i" by (simp add: recent_window_ok_def)
  have first: "step_idx p c \<noteq> Some i" using wf nd i r by (rule recent_not_picked)
  have rest: "Some i \<notin> set (picked_seq (step_pool p c) cs)"
  proof (rule step_cases [of p c])
    assume "step_pool p c = p"
    with Cons.IH [OF wf ok nd q] len show ?thesis by simp
  next
    fix g remove k j p'
    assume pc: "pick_core g remove k p = Inr (j, p')" and sp: "step_pool p c = p'"
    have wf': "pool_wf p'" using wf pc by (rule pick_core_wf)
    have ok': "recent_window_ok p'" using wf ok pc by (rule pick_core_recent_ok)
    have nd': "0 < no_duplicate p'" using nd pick_core_frame [OF pc] by simp
    show ?thesis
    proof (cases cs)
      case Nil
      then show ?thesis by simp
    next
      case (Cons c' cs')
      have "\<exists>xs'. recent_queue p' = xs' @ i # (ys @ [j])"
      proof (cases "no_duplicate p \<le> length (recent_queue p)")
        case False
        with pick_core_recent(1) [OF wf pc nd] q show ?thesis by simp
      next
        case True
        with len q Cons have "xs \<noteq> []" by auto
        then obtain x xs' where "xs = x # xs'" by (cases xs) auto
        with True pick_core_recent(1) [OF wf pc nd] q show ?thesis by simp
      qed
      then obtain xs' where q': "recent_queue p' = xs' @ i # (ys @ [j])" ..
      from len pick_core_frame [OF pc]
      have "length (ys @ [j]) + length cs \<le> no_duplicate p'" by simp
      from Cons.IH [OF wf' ok' nd' q' this] sp show ?thesis by simp
    qed
  qed
  from first rest show ?case by simp
qed

lemma picked_seq_take: "picked_seq p (take n cs) = take n (picked_seq p cs)"
proof (induction cs arbitrary: p n)
  case Nil
  then show ?case by simp
next
  case (Cons c cs)
  then show ?case by (cases n) simp_all
qed

lemma picked_seq_later:
  assumes "m \<le> s" "s < length cs"
  shows "picked_seq p cs ! s = picked_seq (pool_after p (take m cs)) (drop m cs) ! (s - m)"
proof -
  have "picked_seq p cs = picked_seq p (take m cs @ drop m cs)" by simp
  also have "\<dots> = picked_seq p (take m cs) @ picked_seq (pool_after p (take m cs)) (drop m cs)"
    by (rule picked_seq_append)
  finally show ?thesis using assms by (simp add: nth_append min_def)
qed

subsection \<open>Construction and the female bitmap\<close>

lemma mark_female_keeps:
  "i < length bm \<Longrightarrow> bm ! i \<Longrightarrow> mark_female n2i bm fs ! i"
proof -
  have "i < length bm \<Longrightarrow> bm ! i \<Longrightarrow>
      foldl (\<lambda>b s. case n2i (original_name s) of None \<Rightarrow> b | Some j \<Rightarrow> b[j := True]) bm fs ! i"
    for bm
    by (induction fs arbitrary: bm) (auto simp: nth_update_cases split: option.splits)
  then show "i < length bm \<Longrightarrow> bm ! i \<Longrightarrow> mark_female n2i bm fs ! i"
    by (simp add: mark_female_def)
qed

lemma mark_female_Cons:
  "mark_female n2i bm (s # fs) =
     mark_female n2i (case n2i (original_name s) of None \<Rightarrow> bm | Some j \<Rightarrow> bm[j := True]) fs"
  by (simp add: mark_female_def)

lemma mark_female_sets:
  "s \<in> set fs \<Longrightarrow> n2i (original_name s) = Some i \<Longrightarrow> i < length bm \<Longrightarrow>
   mark_female n2i bm fs ! i"
proof (induction fs arbitrary: bm)
  case Nil
  then show ?case by simp
next
  case (Cons a fs)
  show ?case
  proof (cases "s = a")
    case True
    with Cons.prems show ?thesis
      by (simp add: mark_female_Cons mark_female_keeps)
  next
    case False
    with Cons.prems have "s \<in> set fs" by simp
    from Cons.IH [OF this Cons.prems(2)] Cons.prems(3) show ?thesis
      by (simp add: mark_female_Cons split: option.splits)
  qed
qed

section \<open>Properties of the configuration store\<close>

lemma save_atomic_noop:
  "last_save_hash st = Some (sha256_hex rt (json_dumps rt config)) \<Longrightarrow>
   save_atomic rt io config st = (None, st)"
  by (simp add: save_atomic_def Let_def)

lemma save_atomic_writes:
  "last_save_hash st \<noteq> Some (sha256_hex rt (json_dumps rt config)) \<Longrightarrow>
   ''recent_bitmap'' \<notin> dom config \<Longrightarrow> revision_of config = JInt r \<Longrightarrow>
   save_atomic rt IoOk config st =
     (None, st\<lparr> tmp_file := None,
                config_file := Some (json_dumps rt (config(KEY_INTERNAL_REVISION \<mapsto> JInt (r + 1)))),
                config_cache := Some (config(KEY_INTERNAL_REVISION \<mapsto> JInt (r + 1))),
                last_save_hash :=
                  Some (sha256_hex rt
                         (json_dumps rt (config(KEY_INTERNAL_REVISION \<mapsto> JInt (r + 1))))) \<rparr>)"
  by (auto simp: save_atomic_def Let_def)

lemma save_atomic_error_frame:
  "fst (save_atomic rt io config st) = Some e \<Longrightarrow>
   config_file (snd (save_atomic rt io config st)) = config_file st \<and>
   config_cache (snd (save_atomic rt io config st)) = config_cache st \<and>
   last_save_hash (snd (save_atomic rt io config st)) = last_save_hash st"
  by (auto simp: save_atomic_def Let_def split: if_splits sum.splits io_outcome.splits)

lemma save_atomic_recent_bitmap:
  "last_save_hash st \<noteq> Some (sha256_hex rt (json_dumps rt config)) \<Longrightarrow>
   ''recent_bitmap'' \<in> dom config \<Longrightarrow>
   save_atomic rt io config st = (Some TypeError, st)"
  by (auto simp: save_atomic_def Let_def)

lemma save_atomic_hash_needs_cache:
  "hash_needs_cache st \<Longrightarrow> hash_needs_cache (snd (save_atomic rt io config st))"
  by (auto simp: save_atomic_def hash_needs_cache_def Let_def
      split: if_splits sum.splits io_outcome.splits)

lemma revision_of_update [simp]: "revision_of (c(KEY_INTERNAL_REVISION \<mapsto> v)) = v"
  by (simp add: revision_of_def)

subsection \<open>Loading\<close>

lemma load_internal_writes_back:
  assumes "last_save_hash st = None" "config_file st = Some text"
    "json_loads rt text = JsonMapping loaded"
    "''recent_bitmap'' \<notin> dom (DEFAULT_CONFIG ++ loaded)"
    "revision_of (DEFAULT_CONFIG ++ loaded) = JInt r"
  shows "load_internal rt IoOk st =
     (DEFAULT_CONFIG ++ loaded,
      st\<lparr> tmp_file := None,
          config_file :=
            Some (json_dumps rt ((DEFAULT_CONFIG ++ loaded)(KEY_INTERNAL_REVISION \<mapsto> JInt (r + 1)))),
          config_cache := Some ((DEFAULT_CONFIG ++ loaded)(KEY_INTERNAL_REVISION \<mapsto> JInt (r + 1))),
          last_save_hash :=
            Some (sha256_hex rt
                   (json_dumps rt
                      ((DEFAULT_CONFIG ++ loaded)(KEY_INTERNAL_REVISION \<mapsto> JInt (r + 1))))) \<rparr>)"
proof -
  from assms(1) have "last_save_hash st \<noteq> Some (sha256_hex rt (json_dumps rt (DEFAULT_CONFIG ++ loaded)))"
    by simp
  from save_atomic_writes [OF this assms(4,5)] assms(2,3) show ?thesis
    by (simp add: load_internal_def Let_def del: fun_upd_apply)
qed

lemma load_internal_save_raises:
  assumes "config_file st = Some text" "json_loads rt text = JsonMapping loaded"
    "fst (save_atomic rt io (DEFAULT_CONFIG ++ loaded) st) = Some e"
  shows "fst (load_internal rt io st) = DEFAULT_CONFIG"
    and "config_file (snd (load_internal rt io st)) = config_file st"
    and "last_save_hash (snd (load_internal rt io st)) = last_save_hash st"
proof -
  obtain st' where s: "save_atomic rt io (DEFAULT_CONFIG ++ loaded) st = (Some e, st')"
    using assms(3) by (cases "save_atomic rt io (DEFAULT_CONFIG ++ loaded) st") auto
  from save_atomic_error_frame [OF assms(3)] s
  have "config_file st' = config_file st" "last_save_hash st' = last_save_hash st" by simp_all
  with s assms(1,2)
  show "fst (load_internal rt io st) = DEFAULT_CONFIG"
    and "config_file (snd (load_internal rt io st)) = config_file st"
    and "last_save_hash (snd (load_internal rt io st)) = last_save_hash st"
    by (simp_all add: load_internal_def Let_def)
qed

lemma load_cached_hash_needs_cache: "hash_needs_cache (snd (load_cached rt io st))"
  by (auto simp: load_cached_def hash_needs_cache_def Let_def split: option.splits prod.splits)

subsection \<open>The stand-in runtime\<close>

lemma toy_dumps_saved: "toy_dumps toy_saved = ''_revision:1111111;picked_count:111;recent_bitmap:~;''"
  by (simp add: toy_dumps_def toy_saved_def eval_nat_numeral)

lemma toy_dumps_bad: "toy_dumps toy_bad_revision = ''_revision:<7>;picked_count:111;recent_bitmap:~;''"
  by (simp add: toy_dumps_def toy_bad_revision_def eval_nat_numeral)

lemma toy_runtime_simps [simp]:
  "json_dumps toy_runtime = toy_dumps" "json_loads toy_runtime = toy_loads"
  "sha256_hex toy_runtime = (\<lambda>s. s)"
  by (simp_all add: toy_runtime_def)

lemma dom_DEFAULT_CONFIG: "''recent_bitmap'' \<notin> dom DEFAULT_CONFIG"
  by (simp add: DEFAULT_CONFIG_def dom_map_of_conv_image_fst)

section \<open>Properties of the save coalescer\<close>

lemma merged_queue:
  "(if ''geometry'' \<in> set reasons \<and> ''geometry'' |\<in>| q then q |-| {|''geometry''|} else q)
     |\<union>| fset_of_list reasons = q |\<union>| fset_of_list reasons"
  by (auto simp: fset_of_list_elem)

lemma request_save_flushes:
  assumes "5 < fcard (save_queue s |\<union>| fset_of_list reasons)"
  shows "request_save body now reasons s =
     flush_all_saves body now
       (s\<lparr> save_queue := save_queue s |\<union>| fset_of_list reasons,
           debounce_timer := debouncer_stop (debounce_timer s) \<rparr>)"
  using assms by (simp add: request_save_def Let_def merged_queue)

lemma request_save_restarts_timer:
  assumes "fcard (save_queue s |\<union>| fset_of_list reasons) \<le> 5"
  shows "request_save body now reasons s =
     (None, s\<lparr> save_queue := save_queue s |\<union>| fset_of_list reasons,
                debounce_timer :=
                  debouncer_start now CONFIG_SAVE_DELAY (debouncer_stop (debounce_timer s)) \<rparr>)"
  using assms by (simp add: request_save_def Let_def merged_queue)

lemma flush_nonempty:
  assumes "save_queue s \<noteq> {||}"
  shows "flush_log (snd (flush_all_saves body now s)) = flush_log s @ [save_queue s]"
    and "debounce_timer (snd (flush_all_saves body now s)) = debounce_timer s"
    and "save_queue (snd (flush_all_saves body now s)) =
           (if body = SaveReturned (Some RuntimeError) then save_queue s else {||})"
    and "retry_timers (snd (flush_all_saves body now s)) =
           (if body = SaveReturned (Some RuntimeError) then retry_timers s @ [now + 1000]
            else retry_timers s)"
    and "fst (flush_all_saves body now s) =
           (case body of NoUpdates \<Rightarrow> None
            | SaveReturned r \<Rightarrow> (if r = Some RuntimeError then None else r))"
  using assms
  by (auto simp: flush_all_saves_def Let_def split: flush_body.splits option.splits)

subsection \<open>A step of a sequence is a call of pick\<close>

lemma pick_of_step:
  "step_idx p (g, remove, k) = Some i \<Longrightarrow>
   fst (pick g remove k p) = Inr (display_name (students p ! i))"
  "step_idx p (g, remove, k) = None \<Longrightarrow> \<exists>e. fst (pick g remove k p) = Inl e"
  "snd (pick g remove k p) = step_pool p (g, remove, k)"
  by (auto simp: step_idx_def step_pool_def pick_def split: sum.splits dest: pick_core_frame)

subsection \<open>The candidate bitmap of pick is the one the specification describes\<close>

lemma length_spec_candidate_bitmap [simp]:
  "length (spec_candidate_bitmap p g) = length (students p)"
  by (simp add: spec_candidate_bitmap_def)

lemma nth_spec_candidate_bitmap:
  "i < length (students p) \<Longrightarrow> spec_candidate_bitmap p g ! i = spec_candidate p g i"
  by (simp add: spec_candidate_bitmap_def)

lemma pick_candidates_spec:
  assumes wf: "pool_wf p"
  shows "pick_candidates p g = spec_candidate_bitmap p g"
proof (rule nth_equalityI)
  show "length (pick_candidates p g) = length (spec_candidate_bitmap p g)"
    using wf by (simp add: length_pick_candidates)
next
  fix i
  assume "i < length (pick_candidates p g)"
  with wf have i: "i < length (students p)" by (simp add: length_pick_candidates)
  with wf have "pick_candidates p g ! i = spec_candidate p g i"
    by (cases g)
       (auto simp: pool_wf_def pick_candidates_def get_candidate_bitmap_def spec_candidate_def
          gender_mask_def bit_and_def bit_not_def Let_def)
  with i show "pick_candidates p g ! i = spec_candidate_bitmap p g ! i"
    by (simp add: nth_spec_candidate_bitmap)
qed

lemma count_true_zero_iff: "count_true bs = 0 \<longleftrightarrow> (\<forall>i < length bs. \<not> bs ! i)"
  by (auto simp: count_true_def filter_empty_conv in_set_conv_nth)

subsection \<open>The constructor on lists of students and on the fallback lists\<close>

lemma StudentPool_call_students:
  "StudentPool_call (map StudentItem all_students) (map StudentItem female_students) nd =
   StudentPool_init all_students female_students nd"
  by (simp add: StudentPool_call_def StudentPool_init_def list_all_iff comp_def)

lemma StudentPool_call_strings:
  "StudentPool_call [StrItem a] [StrItem b] nd = Inl AttributeError"
  by (simp add: StudentPool_call_def)

section \<open>The claims\<close>

subsection \<open>C1: pick returns the k-th candidate\<close>

text \<open>
  Claim C1. On a well-formed pool the bitmap that \<open>pick\<close> scans is the candidate bitmap of
  the specification: available and gender mask, and not recent when \<open>no_duplicate > 0\<close>.
  When it has \<open>n > 0\<close> set bits, a draw \<open>k < n\<close> makes \<open>pick\<close> return the \<open>display_name\<close>
  of the student at its \<open>k\<close>-th set bit in index order. That position is a roster index and
  a candidate, and the draws \<open>0, \<dots>, n - 1\<close> correspond one to one to the candidates, so a
  uniform draw picks uniformly among them.
\<close>

theorem pick_returns_kth_candidate:
  "pool_wf p \<Longrightarrow> k < count_true (spec_candidate_bitmap p g) \<Longrightarrow>
   pick_candidates p g = spec_candidate_bitmap p g \<and>
   set_bit_positions (spec_candidate_bitmap p g) ! k < length (students p) \<and>
   spec_candidate p g (set_bit_positions (spec_candidate_bitmap p g) ! k) \<and>
   fst (pick g remove k p) =
     Inr (display_name (students p ! (set_bit_positions (spec_candidate_bitmap p g) ! k))) \<and>
   bij_betw (\<lambda>j. set_bit_positions (spec_candidate_bitmap p g) ! j)
     {..<count_true (spec_candidate_bitmap p g)}
     {i. i < length (students p) \<and> spec_candidate p g i}"
proof -
  assume wf: "pool_wf p" and k: "k < count_true (spec_candidate_bitmap p g)"
  let ?c = "spec_candidate_bitmap p g"
  have eq: "pick_candidates p g = ?c" using wf by (rule pick_candidates_spec)
  from k have k': "k < count_true (pick_candidates p g)" by (simp add: eq)
  have ret: "fst (pick g remove k p) =
     Inr (display_name (students p ! (set_bit_positions ?c ! k)))"
    using pick_core_success [OF k', of remove] by (simp add: pick_def eq)
  from kth_candidate_is_candidate [OF k]
  have pos: "set_bit_positions ?c ! k < length (students p)"
    and bit: "?c ! (set_bit_positions ?c ! k)" by simp_all
  from bit pos have cand: "spec_candidate p g (set_bit_positions ?c ! k)"
    by (simp add: nth_spec_candidate_bitmap)
  have "{i. i < length ?c \<and> ?c ! i} = {i. i < length (students p) \<and> spec_candidate p g i}"
    by (auto simp: nth_spec_candidate_bitmap)
  with bij_betw_set_bit_positions [of ?c]
  have bij: "bij_betw (\<lambda>j. set_bit_positions ?c ! j) {..<count_true ?c}
     {i. i < length (students p) \<and> spec_candidate p g i}" by simp
  from eq pos cand ret bij show ?thesis by (intro conjI)
qed

theorem pick_returns_kth_candidate_witness:
  "pool_wf (pool_after (demo_pool 2) [(FEMALE, False, 0)]) \<and>
   no_duplicate (pool_after (demo_pool 2) [(FEMALE, False, 0)]) = 2 \<and>
   bit_available (pool_after (demo_pool 2) [(FEMALE, False, 0)]) =
     [True, True, True, True, True] \<and>
   recent_bitmap (pool_after (demo_pool 2) [(FEMALE, False, 0)]) =
     [False, False, True, False, False] \<and>
   spec_candidate_bitmap (pool_after (demo_pool 2) [(FEMALE, False, 0)]) FEMALE =
     [False, False, False, True, False] \<and>
   fst (pick FEMALE False 0 (pool_after (demo_pool 2) [(FEMALE, False, 0)])) = Inr ''D'' \<and>
   fst (pick UNKNOWN True 2 (pool_after (demo_pool 2) [(FEMALE, False, 0)])) = Inr ''D'' \<and>
   fst (pick MALE True 1 (demo_pool 0)) = Inr ''B''"
proof -
  let ?p = "pool_after (demo_pool 2) [(FEMALE, False, 0)]"
  have wf: "pool_wf ?p" using demo_pool_wf by (rule pool_after_wf)
  have nd: "no_duplicate ?p = 2" by code_simp
  have av: "bit_available ?p = [True, True, True, True, True]" by code_simp
  have rb: "recent_bitmap ?p = [False, False, True, False, False]" by code_simp
  have cf: "spec_candidate_bitmap ?p FEMALE = [False, False, False, True, False]" by code_simp
  have cu: "spec_candidate_bitmap ?p UNKNOWN = [True, True, False, True, True]" by code_simp
  have cm: "spec_candidate_bitmap (demo_pool 0) MALE = [True, True, False, False, True]"
    by code_simp
  have kf: "0 < count_true (spec_candidate_bitmap ?p FEMALE)" by code_simp
  have ku: "2 < count_true (spec_candidate_bitmap ?p UNKNOWN)" by code_simp
  have km: "1 < count_true (spec_candidate_bitmap (demo_pool 0) MALE)" by code_simp
  have pf: "display_name (students ?p ! (set_bit_positions [False, False, False, True, False] ! 0))
      = ''D''" by code_simp
  have pu: "display_name (students ?p ! (set_bit_positions [True, True, False, True, True] ! 2))
      = ''D''" by code_simp
  have pm: "display_name (students (demo_pool 0) !
      (set_bit_positions [True, True, False, False, True] ! 1)) = ''B''" by code_simp
  from pick_returns_kth_candidate [OF wf kf, of False]
  have "fst (pick FEMALE False 0 ?p) =
      Inr (display_name (students ?p ! (set_bit_positions (spec_candidate_bitmap ?p FEMALE) ! 0)))"
    by blast
  then have a: "fst (pick FEMALE False 0 ?p) = Inr ''D''" by (simp only: cf pf)
  from pick_returns_kth_candidate [OF wf ku, of True]
  have "fst (pick UNKNOWN True 2 ?p) =
      Inr (display_name (students ?p ! (set_bit_positions (spec_candidate_bitmap ?p UNKNOWN) ! 2)))"
    by blast
  then have b: "fst (pick UNKNOWN True 2 ?p) = Inr ''D''" by (simp only: cu pu)
  from pick_returns_kth_candidate [OF demo_pool_wf km, of True]
  have "fst (pick MALE True 1 (demo_pool 0)) =
      Inr (display_name (students (demo_pool 0) !
        (set_bit_positions (spec_candidate_bitmap (demo_pool 0) MALE) ! 1)))"
    by blast
  then have c: "fst (pick MALE True 1 (demo_pool 0)) = Inr ''B''" by (simp only: cm pm)
  from wf nd av rb cf a b c show ?thesis by (intro conjI)
qed

subsection \<open>C2: NoCandidates exactly on an empty candidate bitmap\<close>

text \<open>
  Claim C2. On a well-formed pool \<open>pick\<close> raises \<open>NoCandidates\<close> exactly when no roster
  position is a candidate, that is available, selected by the gender mask and, when
  \<open>no_duplicate > 0\<close>, not recent; with candidates and a draw in range it returns a name;
  and whenever it raises, the pool after the call is the pool before it.
\<close>

theorem pick_raises_iff_no_candidates:
  "pool_wf p \<Longrightarrow>
   pick_candidates p g = spec_candidate_bitmap p g \<and>
   (fst (pick g remove k p) = Inl (NoCandidates g) \<longleftrightarrow>
      (\<forall>i < length (students p). \<not> spec_candidate p g i)) \<and>
   (fst (pick g remove k p) = Inl (NoCandidates g) \<longleftrightarrow>
      count_true (spec_candidate_bitmap p g) = 0) \<and>
   (k < count_true (spec_candidate_bitmap p g) \<longrightarrow>
      (\<exists>name. fst (pick g remove k p) = Inr name)) \<and>
   (\<forall>e. fst (pick g remove k p) = Inl e \<longrightarrow> snd (pick g remove k p) = p)"
proof -
  assume wf: "pool_wf p"
  let ?c = "spec_candidate_bitmap p g"
  have eq: "pick_candidates p g = ?c" using wf by (rule pick_candidates_spec)
  have zero: "count_true ?c = 0 \<longleftrightarrow> (\<forall>i < length (students p). \<not> spec_candidate p g i)"
    by (auto simp: count_true_zero_iff nth_spec_candidate_bitmap)
  consider (empty) "count_true (pick_candidates p g) = 0"
    | (ok) "k < count_true (pick_candidates p g)"
    | (out) "0 < count_true (pick_candidates p g)" "count_true (pick_candidates p g) \<le> k"
    by linarith
  then have main:
    "(fst (pick g remove k p) = Inl (NoCandidates g) \<longleftrightarrow> count_true (pick_candidates p g) = 0) \<and>
     (k < count_true (pick_candidates p g) \<longrightarrow> (\<exists>name. fst (pick g remove k p) = Inr name)) \<and>
     (\<forall>e. fst (pick g remove k p) = Inl e \<longrightarrow> snd (pick g remove k p) = p)"
  proof cases
    case empty
    then show ?thesis by (simp add: pick_def pick_core_empty)
  next
    case ok
    then show ?thesis by (simp add: pick_def pick_core_success)
  next
    case out
    then show ?thesis by (simp add: pick_def pick_core_out_of_range)
  qed
  from main zero eq show ?thesis by simp
qed

theorem pick_raises_iff_no_candidates_witness:
  "pool_wf (pool_after (demo_pool 2) [(FEMALE, False, 0), (FEMALE, False, 0)]) \<and>
   bit_available (pool_after (demo_pool 2) [(FEMALE, False, 0), (FEMALE, False, 0)]) =
     [True, True, True, True, True] \<and>
   recent_bitmap (pool_after (demo_pool 2) [(FEMALE, False, 0), (FEMALE, False, 0)]) =
     [False, False, True, True, False] \<and>
   fst (pick FEMALE False 0 (pool_after (demo_pool 2) [(FEMALE, False, 0), (FEMALE, False, 0)])) =
     Inl (NoCandidates FEMALE) \<and>
   snd (pick FEMALE False 0 (pool_after (demo_pool 2) [(FEMALE, False, 0), (FEMALE, False, 0)])) =
     pool_after (demo_pool 2) [(FEMALE, False, 0), (FEMALE, False, 0)] \<and>
   (\<exists>name. fst (pick MALE False 0
      (pool_after (demo_pool 2) [(FEMALE, False, 0), (FEMALE, False, 0)])) = Inr name) \<and>
   fst (pick FEMALE True 0 (pool_after (demo_pool 0) [(FEMALE, True, 0), (FEMALE, True, 0)])) =
     Inl (NoCandidates FEMALE)"
proof -
  let ?p = "pool_after (demo_pool 2) [(FEMALE, False, 0), (FEMALE, False, 0)]"
  let ?q = "pool_after (demo_pool 0) [(FEMALE, True, 0), (FEMALE, True, 0)]"
  have wf: "pool_wf ?p" and wfq: "pool_wf ?q" using demo_pool_wf by (rule pool_after_wf)+
  have av: "bit_available ?p = [True, True, True, True, True]" by code_simp
  have rb: "recent_bitmap ?p = [False, False, True, True, False]" by code_simp
  have none: "count_true (spec_candidate_bitmap ?p FEMALE) = 0" by code_simp
  have noneq: "count_true (spec_candidate_bitmap ?q FEMALE) = 0" by code_simp
  have some: "0 < count_true (spec_candidate_bitmap ?p MALE)" by code_simp
  note f = pick_raises_iff_no_candidates [OF wf, of FEMALE False 0]
    and m = pick_raises_iff_no_candidates [OF wf, of MALE False 0]
    and q = pick_raises_iff_no_candidates [OF wfq, of FEMALE True 0]
  from f none have a: "fst (pick FEMALE False 0 ?p) = Inl (NoCandidates FEMALE)" by blast
  with f have b: "snd (pick FEMALE False 0 ?p) = ?p" by blast
  from m some have c: "\<exists>name. fst (pick MALE False 0 ?p) = Inr name" by blast
  from q noneq have d: "fst (pick FEMALE True 0 ?q) = Inl (NoCandidates FEMALE)" by blast
  from wf av rb a b c d show ?thesis by (intro conjI)
qed

subsection \<open>C3: a removed student is not picked again\<close>

text \<open>
  Claim C3, as amended. In a sequence of \<open>pick\<close> calls that all remove, on a well-formed
  pool and with no reset or restore in between, a roster position returned at step \<open>t\<close>
  has its available bit cleared and its picked bit set after every later step, is a
  candidate for no filter, and is not returned by any later call. When the roster's
  identities are pairwise distinct, no identity is returned twice either.
\<close>

theorem removed_picks_never_repeat:
  "pool_wf p \<Longrightarrow> all_remove calls \<Longrightarrow> t < s \<Longrightarrow> s \<le> length calls \<Longrightarrow>
   picked_seq p calls ! t = Some i \<Longrightarrow>
   i < length (students p) \<and>
   \<not> bit_available (pool_after p (take s calls)) ! i \<and>
   bit_picked (pool_after p (take s calls)) ! i \<and>
   (\<forall>g. \<not> pick_candidates (pool_after p (take s calls)) g ! i) \<and>
   (s < length calls \<longrightarrow>
      picked_seq p calls ! s \<noteq> Some i \<and>
      (distinct (map original_name (students p)) \<longrightarrow>
         returned_identities p calls ! s \<noteq> returned_identities p calls ! t))"
proof -
  assume wf: "pool_wf p" and rm: "all_remove calls" and ts: "t < s"
    and s: "s \<le> length calls" and pick_t: "picked_seq p calls ! t = Some i"
  let ?pt = "pool_after p (take t calls)"
  let ?pt1 = "pool_after p (take (Suc t) calls)"
  let ?ps = "pool_after p (take s calls)"
  from ts s have t: "t < length calls" by simp
  have wf_t: "pool_wf ?pt" and wf_t1: "pool_wf ?pt1" and wf_s: "pool_wf ?ps"
    using wf by (simp_all add: pool_after_wf)
  have idx_t: "step_idx ?pt (calls ! t) = Some i"
    using pick_t picked_seq_nth [OF t, of p] by simp
  have rm_t: "fst (snd (calls ! t))" using rm t by (rule all_remove_nth)
  have pt1: "?pt1 = step_pool ?pt (calls ! t)" using t by (rule pool_after_take_Suc)
  have i: "i < length (students p)"
    using step_remove_clears(1) [OF wf_t idx_t rm_t] by simp
  have av1: "\<not> bit_available ?pt1 ! i" and pk1: "bit_picked ?pt1 ! i"
    using step_remove_clears(2,3) [OF wf_t idx_t rm_t] by (simp_all add: pt1)
  have ps: "?ps = pool_after ?pt1 (drop (Suc t) (take s calls))"
    using ts by (rule pool_after_take_later)
  have i1: "i < length (students ?pt1)" using i by simp
  have av: "\<not> bit_available ?ps ! i"
    using run_keeps_unavailable [OF wf_t1 i1 av1, of "drop (Suc t) (take s calls)"]
    by (simp add: ps)
  have pk: "bit_picked ?ps ! i"
    using run_keeps_picked [OF pk1, of "drop (Suc t) (take s calls)"] by (simp add: ps)
  have i_s: "i < length (students ?ps)" using i by simp
  have nc: "\<forall>g. \<not> pick_candidates ?ps g ! i"
    using unavailable_not_candidate [OF wf_s i_s av] by simp
  have later: "picked_seq p calls ! s \<noteq> Some i \<and>
      (distinct (map original_name (students p)) \<longrightarrow>
         returned_identities p calls ! s \<noteq> returned_identities p calls ! t)"
    if sl: "s < length calls"
  proof -
    have idx_s: "picked_seq p calls ! s = step_idx ?ps (calls ! s)"
      using sl by (rule picked_seq_nth)
    have ne: "picked_seq p calls ! s \<noteq> Some i"
      using step_keeps_unavailable(1) [OF wf_s i_s av, of "calls ! s"] idx_s by simp
    have "returned_identities p calls ! s \<noteq> returned_identities p calls ! t"
      if d: "distinct (map original_name (students p))"
    proof (cases "picked_seq p calls ! s")
      case None
      with sl t pick_t show ?thesis by (simp add: returned_identities_def)
    next
      case (Some j)
      with idx_s have "step_idx ?ps (calls ! s) = Some j" by simp
      from step_idx_in_roster [OF wf_s this] have j: "j < length (students p)" by simp
      from ne Some have "j \<noteq> i" by simp
      with d i j have "original_name (students p ! j) \<noteq> original_name (students p ! i)"
        by (auto simp: distinct_conv_nth)
      with Some sl t pick_t show ?thesis by (simp add: returned_identities_def)
    qed
    with ne show ?thesis by simp
  qed
  from i av pk nc later show ?thesis by blast
qed

theorem removed_picks_never_repeat_witness:
  "pool_wf (demo_pool 0) \<and>
   all_remove [(FEMALE, True, 0), (FEMALE, True, 0), (FEMALE, True, 0), (MALE, True, 0)] \<and>
   picked_seq (demo_pool 0)
     [(FEMALE, True, 0), (FEMALE, True, 0), (FEMALE, True, 0), (MALE, True, 0)] ! 0 = Some 2 \<and>
   distinct (map original_name (students (demo_pool 0))) \<and>
   \<not> bit_available (pool_after (demo_pool 0)
       (take 1 [(FEMALE, True, 0), (FEMALE, True, 0), (FEMALE, True, 0), (MALE, True, 0)])) ! 2 \<and>
   picked_seq (demo_pool 0)
     [(FEMALE, True, 0), (FEMALE, True, 0), (FEMALE, True, 0), (MALE, True, 0)] ! 1 \<noteq> Some 2 \<and>
   returned_identities (demo_pool 0)
     [(FEMALE, True, 0), (FEMALE, True, 0), (FEMALE, True, 0), (MALE, True, 0)] ! 1 \<noteq>
   returned_identities (demo_pool 0)
     [(FEMALE, True, 0), (FEMALE, True, 0), (FEMALE, True, 0), (MALE, True, 0)] ! 0"
proof -
  let ?cs = "[(FEMALE, True, 0), (FEMALE, True, 0), (FEMALE, True, 0), (MALE, True, 0)]"
  have rm: "all_remove ?cs" by code_simp
  have pk: "picked_seq (demo_pool 0) ?cs ! 0 = Some 2" by code_simp
  have d: "distinct (map original_name (students (demo_pool 0)))" by code_simp
  have ts: "(0::nat) < 1" and s: "1 \<le> length ?cs" and sl: "1 < length ?cs" by simp_all
  from removed_picks_never_repeat [OF demo_pool_wf rm ts s pk] sl d demo_pool_wf rm pk
  show ?thesis by blast
qed

text \<open>
  The claim as stated speaks of identities and fails on a roster with a repeated line:
  two removing picks on the roster A, A both return the identity A.
\<close>

theorem removed_picks_identity_counterexample:
  "pool_wf (twin_pool 0) \<and>
   all_remove [(UNKNOWN, True, 0), (UNKNOWN, True, 0)] \<and>
   returned_identities (twin_pool 0) [(UNKNOWN, True, 0), (UNKNOWN, True, 0)] =
     [Some ''A'', Some ''A''] \<and>
   fst (pick UNKNOWN True 0 (twin_pool 0)) = Inr ''A'' \<and>
   fst (pick UNKNOWN True 0 (snd (pick UNKNOWN True 0 (twin_pool 0)))) = Inr ''A''"
proof -
  have "StudentPool_init twin_roster [] 0 = Inr (twin_pool 0)"
    by (simp add: twin_pool_def StudentPool_init_def twin_roster_def Let_def)
  then have "pool_wf (twin_pool 0)" by (rule StudentPool_init_wf)
  moreover have "all_remove [(UNKNOWN, True, 0), (UNKNOWN, True, 0)]" by code_simp
  moreover have "returned_identities (twin_pool 0) [(UNKNOWN, True, 0), (UNKNOWN, True, 0)] =
     [Some ''A'', Some ''A'']" by code_simp
  moreover have "fst (pick UNKNOWN True 0 (twin_pool 0)) = Inr ''A''" by code_simp
  moreover have "fst (pick UNKNOWN True 0 (snd (pick UNKNOWN True 0 (twin_pool 0)))) = Inr ''A''"
    by code_simp
  ultimately show ?thesis by blast
qed

subsection \<open>C4: the recent window\<close>

text \<open>
  Claim C4, as amended. With \<open>no_duplicate = k > 0\<close>, in a sequence of \<open>pick\<close> calls on one
  pool (no reset, no resize; whatever the \<open>remove\<close> flags, so in particular when all are
  false), a roster position returned at step \<open>t\<close> is not returned at any step in
  \<open>(t, t + k]\<close>; when the roster's identities are pairwise distinct the same holds for the
  identity. The window is a FIFO: the pick at step \<open>t\<close> first drops the oldest queue entry and
  clears its bit if the queue is full, then appends the new index and sets its bit.
\<close>

theorem recent_window_blocks_repeat:
  "pool_wf p \<Longrightarrow> recent_window_ok p \<Longrightarrow> 0 < no_duplicate p \<Longrightarrow>
   t < s \<Longrightarrow> s \<le> t + no_duplicate p \<Longrightarrow> s < length calls \<Longrightarrow>
   picked_seq p calls ! t = Some i \<Longrightarrow>
   picked_seq p calls ! s \<noteq> Some i \<and>
   (distinct (map original_name (students p)) \<longrightarrow>
      returned_identities p calls ! s \<noteq> returned_identities p calls ! t) \<and>
   recent_queue (pool_after p (take (Suc t) calls)) =
     (if no_duplicate p \<le> length (recent_queue (pool_after p (take t calls)))
      then tl (recent_queue (pool_after p (take t calls)))
      else recent_queue (pool_after p (take t calls))) @ [i] \<and>
   recent_bitmap (pool_after p (take (Suc t) calls)) =
     (if no_duplicate p \<le> length (recent_queue (pool_after p (take t calls)))
      then (recent_bitmap (pool_after p (take t calls)))
             [hd (recent_queue (pool_after p (take t calls))) := False]
      else recent_bitmap (pool_after p (take t calls)))[i := True]"
proof -
  assume wf: "pool_wf p" and ok: "recent_window_ok p" and nd: "0 < no_duplicate p"
    and ts: "t < s" and window: "s \<le> t + no_duplicate p" and sl: "s < length calls"
    and pick_t: "picked_seq p calls ! t = Some i"
  let ?pt = "pool_after p (take t calls)"
  let ?pt1 = "pool_after p (take (Suc t) calls)"
  let ?rest = "drop (Suc t) calls"
  from ts sl have t: "t < length calls" by simp
  have wf_t: "pool_wf ?pt" and wf_t1: "pool_wf ?pt1" using wf by (simp_all add: pool_after_wf)
  have ok_t1: "recent_window_ok ?pt1" using wf ok by (rule pool_after_recent_ok)
  have nd_t: "0 < no_duplicate ?pt" and nd_t1: "0 < no_duplicate ?pt1" using nd by simp_all
  have idx_t: "step_idx ?pt (calls ! t) = Some i"
    using pick_t picked_seq_nth [OF t, of p] by simp
  have pt1: "?pt1 = step_pool ?pt (calls ! t)" using t by (rule pool_after_take_Suc)
  obtain g remove k where pc: "pick_core g remove k ?pt = Inr (i, ?pt1)"
    using idx_t pt1 by (rule_tac step_cases [of ?pt "calls ! t"]) auto
  note fifo = pick_core_recent [OF wf_t pc nd_t]
  from fifo(1) obtain xs where q1: "recent_queue ?pt1 = xs @ i # []" by simp
  have "length ([]::nat list) + length (take (no_duplicate p) ?rest) \<le> no_duplicate ?pt1"
    by simp
  from recent_guard [OF wf_t1 ok_t1 nd_t1 q1 this]
  have guard: "Some i \<notin> set (take (no_duplicate p) (picked_seq ?pt1 ?rest))"
    by (simp add: picked_seq_take)
  have s_eq: "picked_seq p calls ! s = picked_seq ?pt1 ?rest ! (s - Suc t)"
    using ts sl by (intro picked_seq_later) simp_all
  from ts window sl have "s - Suc t < no_duplicate p" "s - Suc t < length (picked_seq ?pt1 ?rest)"
    by simp_all
  then have "picked_seq ?pt1 ?rest ! (s - Suc t) \<in> set (take (no_duplicate p) (picked_seq ?pt1 ?rest))"
    by (metis in_set_conv_nth length_take min_less_iff_conj nth_take)
  with guard s_eq have ne: "picked_seq p calls ! s \<noteq> Some i" by auto
  have i: "i < length (students p)" using step_idx_in_roster [OF wf_t idx_t] by simp
  have ids: "returned_identities p calls ! s \<noteq> returned_identities p calls ! t"
    if d: "distinct (map original_name (students p))"
  proof (cases "picked_seq p calls ! s")
    case None
    with sl t pick_t show ?thesis by (simp add: returned_identities_def)
  next
    case (Some j)
    have "picked_seq p calls ! s = step_idx (pool_after p (take s calls)) (calls ! s)"
      using sl by (rule picked_seq_nth)
    with Some have "step_idx (pool_after p (take s calls)) (calls ! s) = Some j" by simp
    from step_idx_in_roster [OF pool_after_wf [OF wf] this]
    have j: "j < length (students p)" by simp
    from ne Some have "j \<noteq> i" by simp
    with d i j have "original_name (students p ! j) \<noteq> original_name (students p ! i)"
      by (auto simp: distinct_conv_nth)
    with Some sl t pick_t show ?thesis by (simp add: returned_identities_def)
  qed
  from ne ids fifo show ?thesis by simp
qed

theorem recent_window_blocks_repeat_witness:
  "pool_wf (demo_pool 2) \<and> recent_window_ok (demo_pool 2) \<and> 0 < no_duplicate (demo_pool 2) \<and>
   2 \<le> 0 + no_duplicate (demo_pool 2) \<and>
   distinct (map original_name (students (demo_pool 2))) \<and>
   picked_seq (demo_pool 2)
     [(UNKNOWN, False, 0), (UNKNOWN, False, 0), (UNKNOWN, False, 0), (UNKNOWN, False, 0)]
     = [Some 0, Some 1, Some 2, Some 0] \<and>
   picked_seq (demo_pool 2)
     [(UNKNOWN, False, 0), (UNKNOWN, False, 0), (UNKNOWN, False, 0), (UNKNOWN, False, 0)] ! 2
     \<noteq> Some 0 \<and>
   returned_identities (demo_pool 2)
     [(UNKNOWN, False, 0), (UNKNOWN, False, 0), (UNKNOWN, False, 0), (UNKNOWN, False, 0)] ! 2 \<noteq>
   returned_identities (demo_pool 2)
     [(UNKNOWN, False, 0), (UNKNOWN, False, 0), (UNKNOWN, False, 0), (UNKNOWN, False, 0)] ! 0"
proof -
  let ?cs = "[(UNKNOWN, False, 0), (UNKNOWN, False, 0), (UNKNOWN, False, 0), (UNKNOWN, False, 0)]"
  have ok: "recent_window_ok (demo_pool 2)"
    using demo_pool_init by (rule StudentPool_init_recent_ok)
  have nd: "0 < no_duplicate (demo_pool 2)" by code_simp
  have window: "2 \<le> 0 + no_duplicate (demo_pool 2)" by code_simp
  have ts: "(0::nat) < 2" and sl: "2 < length ?cs" by simp_all
  have run: "picked_seq (demo_pool 2) ?cs = [Some 0, Some 1, Some 2, Some 0]" by code_simp
  then have pk: "picked_seq (demo_pool 2) ?cs ! 0 = Some 0" by simp
  have d: "distinct (map original_name (students (demo_pool 2)))" by code_simp
  from recent_window_blocks_repeat [OF demo_pool_wf ok nd ts window sl pk]
    demo_pool_wf ok nd window d run
  show ?thesis by blast
qed

text \<open>
  As stated for identities the claim fails on a roster with a repeated line: with
  \<open>no_duplicate = 1\<close> and no removal, two consecutive picks on the roster A, A return the
  identity A twice.
\<close>

theorem recent_window_identity_counterexample:
  "pool_wf (twin_pool 1) \<and> recent_window_ok (twin_pool 1) \<and> no_duplicate (twin_pool 1) = 1 \<and>
   returned_identities (twin_pool 1) [(UNKNOWN, False, 0), (UNKNOWN, False, 0)] =
     [Some ''A'', Some ''A''] \<and>
   fst (pick UNKNOWN False 0 (twin_pool 1)) = Inr ''A'' \<and>
   fst (pick UNKNOWN False 0 (snd (pick UNKNOWN False 0 (twin_pool 1)))) = Inr ''A''"
proof -
  have init: "StudentPool_init twin_roster [] 1 = Inr (twin_pool 1)"
    by (simp add: twin_pool_def StudentPool_init_def twin_roster_def Let_def)
  have "pool_wf (twin_pool 1)" using init by (rule StudentPool_init_wf)
  moreover have "recent_window_ok (twin_pool 1)" using init by (rule StudentPool_init_recent_ok)
  moreover have "no_duplicate (twin_pool 1) = 1" by code_simp
  moreover have "returned_identities (twin_pool 1) [(UNKNOWN, False, 0), (UNKNOWN, False, 0)] =
     [Some ''A'', Some ''A'']" by code_simp
  moreover have "fst (pick UNKNOWN False 0 (twin_pool 1)) = Inr ''A''" by code_simp
  moreover have "fst (pick UNKNOWN False 0 (snd (pick UNKNOWN False 0 (twin_pool 1)))) = Inr ''A''"
    by code_simp
  ultimately show ?thesis by blast
qed

subsection \<open>C5: save_atomic skips unchanged content and bumps the revision\<close>

text \<open>
  Claim C5, as amended. \<open>save_atomic\<close> compares the hash of the mapping's canonical
  serialization with the stored hash. When they are equal, in particular when the
  serialization is byte-identical to the last saved content whose hash is stored, the call
  returns without any effect: file, cache, hash and revision stay as they are. When they
  differ, in particular when nothing was saved yet, and the mapping has an absent or integer
  revision and no \<open>recent_bitmap\<close> key, and both file operations succeed, the copy gets
  revision \<open>r + 1\<close>, its serialization replaces the live file by way of the temporary file,
  and the cache and the stored hash are updated to it. A call that raises leaves the live
  file, the cache and the hash untouched.
\<close>

theorem save_atomic_dedup_and_revision:
  "(last_save_hash st = Some (sha256_hex rt (json_dumps rt config)) \<longrightarrow>
      save_atomic rt io config st = (None, st)) \<and>
   (last_save_hash st = Some (sha256_hex rt last_content) \<and>
    json_dumps rt config = last_content \<longrightarrow>
      save_atomic rt io config st = (None, st)) \<and>
   ((last_save_hash st = None \<or>
     last_save_hash st \<noteq> Some (sha256_hex rt (json_dumps rt config))) \<and>
    ''recent_bitmap'' \<notin> dom config \<and> revision_of config = JInt r \<longrightarrow>
      save_atomic rt IoOk config st =
        (None, st\<lparr> tmp_file := None,
                   config_file :=
                     Some (json_dumps rt (config(KEY_INTERNAL_REVISION \<mapsto> JInt (r + 1)))),
                   config_cache := Some (config(KEY_INTERNAL_REVISION \<mapsto> JInt (r + 1))),
                   last_save_hash :=
                     Some (sha256_hex rt
                            (json_dumps rt (config(KEY_INTERNAL_REVISION \<mapsto> JInt (r + 1))))) \<rparr>) \<and>
      revision_of (config(KEY_INTERNAL_REVISION \<mapsto> JInt (r + 1))) = JInt (r + 1)) \<and>
   (\<forall>e. fst (save_atomic rt io config st) = Some e \<longrightarrow>
      config_file (snd (save_atomic rt io config st)) = config_file st \<and>
      config_cache (snd (save_atomic rt io config st)) = config_cache st \<and>
      last_save_hash (snd (save_atomic rt io config st)) = last_save_hash st)"
proof (intro conjI)
  show "last_save_hash st = Some (sha256_hex rt (json_dumps rt config)) \<longrightarrow>
      save_atomic rt io config st = (None, st)"
    by (auto intro: save_atomic_noop)
next
  show "last_save_hash st = Some (sha256_hex rt last_content) \<and>
    json_dumps rt config = last_content \<longrightarrow>
      save_atomic rt io config st = (None, st)"
    by (auto intro: save_atomic_noop)
next
  show "(last_save_hash st = None \<or>
     last_save_hash st \<noteq> Some (sha256_hex rt (json_dumps rt config))) \<and>
    ''recent_bitmap'' \<notin> dom config \<and> revision_of config = JInt r \<longrightarrow>
      save_atomic rt IoOk config st =
        (None, st\<lparr> tmp_file := None,
                   config_file :=
                     Some (json_dumps rt (config(KEY_INTERNAL_REVISION \<mapsto> JInt (r + 1)))),
                   config_cache := Some (config(KEY_INTERNAL_REVISION \<mapsto> JInt (r + 1))),
                   last_save_hash :=
                     Some (sha256_hex rt
                            (json_dumps rt (config(KEY_INTERNAL_REVISION \<mapsto> JInt (r + 1))))) \<rparr>) \<and>
      revision_of (config(KEY_INTERNAL_REVISION \<mapsto> JInt (r + 1))) = JInt (r + 1)"
  proof (intro impI, elim conjE)
    assume h: "last_save_hash st = None \<or>
        last_save_hash st \<noteq> Some (sha256_hex rt (json_dumps rt config))"
      and nb: "''recent_bitmap'' \<notin> dom config" and rv: "revision_of config = JInt r"
    from h have "last_save_hash st \<noteq> Some (sha256_hex rt (json_dumps rt config))"
      by auto
    from save_atomic_writes [OF this nb rv] revision_of_update [of config "JInt (r + 1)"]
    show "save_atomic rt IoOk config st =
        (None, st\<lparr> tmp_file := None,
                   config_file :=
                     Some (json_dumps rt (config(KEY_INTERNAL_REVISION \<mapsto> JInt (r + 1)))),
                   config_cache := Some (config(KEY_INTERNAL_REVISION \<mapsto> JInt (r + 1))),
                   last_save_hash :=
                     Some (sha256_hex rt
                            (json_dumps rt (config(KEY_INTERNAL_REVISION \<mapsto> JInt (r + 1))))) \<rparr>) \<and>
      revision_of (config(KEY_INTERNAL_REVISION \<mapsto> JInt (r + 1))) = JInt (r + 1)"
      by (intro conjI)
  qed
next
  show "\<forall>e. fst (save_atomic rt io config st) = Some e \<longrightarrow>
      config_file (snd (save_atomic rt io config st)) = config_file st \<and>
      config_cache (snd (save_atomic rt io config st)) = config_cache st \<and>
      last_save_hash (snd (save_atomic rt io config st)) = last_save_hash st"
    using save_atomic_error_frame [of rt io config st] by (intro allI impI)
qed

theorem save_atomic_dedup_and_revision_witness:
  "last_save_hash toy_store = Some (sha256_hex toy_runtime (toy_dumps toy_saved)) \<and>
   save_atomic toy_runtime IoOk toy_saved toy_store = (None, toy_store) \<and>
   last_save_hash toy_store \<noteq>
     Some (sha256_hex toy_runtime
            (json_dumps toy_runtime (toy_saved(''picked_count'' \<mapsto> JInt 4)))) \<and>
   fst (save_atomic toy_runtime IoOk (toy_saved(''picked_count'' \<mapsto> JInt 4)) toy_store) = None \<and>
   config_file (snd (save_atomic toy_runtime IoOk (toy_saved(''picked_count'' \<mapsto> JInt 4)) toy_store)) =
     Some ''_revision:11111111;picked_count:1111;recent_bitmap:~;'' \<and>
   map_option revision_of
     (config_cache (snd (save_atomic toy_runtime IoOk (toy_saved(''picked_count'' \<mapsto> JInt 4))
        toy_store))) = Some (JInt 8) \<and>
   fst (save_atomic toy_runtime IoOk toy_saved (initial_store None)) = None \<and>
   config_file (snd (save_atomic toy_runtime IoOk toy_saved (initial_store None))) =
     Some ''_revision:11111111;picked_count:111;recent_bitmap:~;''"
proof -
  let ?new = "toy_saved(''picked_count'' \<mapsto> JInt 4)"
  have h: "last_save_hash toy_store = Some (sha256_hex toy_runtime (toy_dumps toy_saved))"
    by (simp add: toy_store_def)
  have same: "json_dumps toy_runtime toy_saved = toy_dumps toy_saved" by simp
  have differs: "last_save_hash toy_store \<noteq>
      Some (sha256_hex toy_runtime (json_dumps toy_runtime ?new))"
    by (simp add: toy_store_def toy_dumps_def toy_saved_def eval_nat_numeral)
  have fresh: "last_save_hash (initial_store None) = None" by (simp add: initial_store_def)
  have nb: "''recent_bitmap'' \<notin> dom ?new" and nb0: "''recent_bitmap'' \<notin> dom toy_saved"
    by (simp_all add: toy_saved_def)
  have rv: "revision_of ?new = JInt 7" and rv0: "revision_of toy_saved = JInt 7"
    by (simp_all add: revision_of_def KEY_INTERNAL_REVISION_def toy_saved_def)
  have out: "toy_dumps (?new(KEY_INTERNAL_REVISION \<mapsto> JInt (7 + 1))) =
      ''_revision:11111111;picked_count:1111;recent_bitmap:~;''"
    by (simp add: toy_dumps_def toy_saved_def KEY_INTERNAL_REVISION_def eval_nat_numeral)
  have out0: "toy_dumps (toy_saved(KEY_INTERNAL_REVISION \<mapsto> JInt (7 + 1))) =
      ''_revision:11111111;picked_count:111;recent_bitmap:~;''"
    by (simp add: toy_dumps_def toy_saved_def KEY_INTERNAL_REVISION_def eval_nat_numeral)
  note t1 = save_atomic_dedup_and_revision
    [where st = toy_store and rt = toy_runtime and last_content = "toy_dumps toy_saved"
       and config = toy_saved and io = IoOk and r = 7]
  note t2 = save_atomic_dedup_and_revision
    [where st = toy_store and rt = toy_runtime and last_content = "toy_dumps toy_saved"
       and config = ?new and io = IoOk and r = 7]
  note t3 = save_atomic_dedup_and_revision
    [where st = "initial_store None" and rt = toy_runtime
       and last_content = "toy_dumps toy_saved" and config = toy_saved and io = IoOk and r = 7]
  from t1 h same have a: "save_atomic toy_runtime IoOk toy_saved toy_store = (None, toy_store)"
    by blast
  from t2 differs nb rv
  have "save_atomic toy_runtime IoOk ?new toy_store =
        (None, toy_store\<lparr> tmp_file := None,
                   config_file :=
                     Some (json_dumps toy_runtime (?new(KEY_INTERNAL_REVISION \<mapsto> JInt (7 + 1)))),
                   config_cache := Some (?new(KEY_INTERNAL_REVISION \<mapsto> JInt (7 + 1))),
                   last_save_hash :=
                     Some (sha256_hex toy_runtime
                            (json_dumps toy_runtime (?new(KEY_INTERNAL_REVISION \<mapsto> JInt (7 + 1))))) \<rparr>)"
    by blast
  then have b: "fst (save_atomic toy_runtime IoOk ?new toy_store) = None"
    and c: "config_file (snd (save_atomic toy_runtime IoOk ?new toy_store)) =
      Some ''_revision:11111111;picked_count:1111;recent_bitmap:~;''"
    and d: "map_option revision_of (config_cache (snd (save_atomic toy_runtime IoOk ?new toy_store))) =
      Some (JInt 8)"
    using out by (simp_all del: fun_upd_apply)
  from t3 fresh nb0 rv0
  have "save_atomic toy_runtime IoOk toy_saved (initial_store None) =
        (None, (initial_store None)\<lparr> tmp_file := None,
                   config_file :=
                     Some (json_dumps toy_runtime
                            (toy_saved(KEY_INTERNAL_REVISION \<mapsto> JInt (7 + 1)))),
                   config_cache := Some (toy_saved(KEY_INTERNAL_REVISION \<mapsto> JInt (7 + 1))),
                   last_save_hash :=
                     Some (sha256_hex toy_runtime
                            (json_dumps toy_runtime
                               (toy_saved(KEY_INTERNAL_REVISION \<mapsto> JInt (7 + 1))))) \<rparr>)"
    by blast
  then have e: "fst (save_atomic toy_runtime IoOk toy_saved (initial_store None)) = None"
    and f: "config_file (snd (save_atomic toy_runtime IoOk toy_saved (initial_store None))) =
      Some ''_revision:11111111;picked_count:111;recent_bitmap:~;''"
    using out0 by (simp_all del: fun_upd_apply)
  from h a differs b c d e f show ?thesis by (intro conjI)
qed

text \<open>
  As stated (any differing content is written with the revision incremented) the claim
  fails on a mapping whose revision is not a number: its content and its hash differ from
  what was saved last, yet \<open>save_atomic\<close> raises \<^verbatim>\<open>TypeError\<close> at
  \<^verbatim>\<open>get(KEY, 0) + 1\<close> and nothing is written.
\<close>

theorem save_atomic_revision_counterexample:
  "last_save_hash toy_store = Some (sha256_hex toy_runtime (toy_dumps toy_saved)) \<and>
   json_dumps toy_runtime toy_bad_revision \<noteq> toy_dumps toy_saved \<and>
   last_save_hash toy_store \<noteq>
     Some (sha256_hex toy_runtime (json_dumps toy_runtime toy_bad_revision)) \<and>
   save_atomic toy_runtime IoOk toy_bad_revision toy_store = (Some TypeError, toy_store)"
proof -
  have "last_save_hash toy_store = Some (sha256_hex toy_runtime (toy_dumps toy_saved))"
    by (simp add: toy_store_def)
  moreover have ne: "json_dumps toy_runtime toy_bad_revision \<noteq> toy_dumps toy_saved"
    by (simp add: toy_dumps_saved toy_dumps_bad)
  moreover have hd: "last_save_hash toy_store \<noteq>
      Some (sha256_hex toy_runtime (json_dumps toy_runtime toy_bad_revision))"
    by (simp add: toy_store_def toy_dumps_saved toy_dumps_bad)
  moreover have "save_atomic toy_runtime IoOk toy_bad_revision toy_store = (Some TypeError, toy_store)"
  proof -
    note hd
    moreover have "''recent_bitmap'' \<notin> dom toy_bad_revision" by (simp add: toy_bad_revision_def)
    moreover have "py_add1 toy_runtime (revision_of toy_bad_revision) = Inl TypeError"
      by (simp add: revision_of_def KEY_INTERNAL_REVISION_def toy_bad_revision_def)
    ultimately show ?thesis by (simp add: save_atomic_def Let_def)
  qed
  ultimately show ?thesis by (intro conjI)
qed

subsection \<open>C6: building the population\<close>

text \<open>
  Claim C6, as amended. Loading checks the female list first: whenever
  \<open>invalid = femaleIdentities - allIdentities\<close> is not empty the attempt fails with
  \<open>SubsetViolation invalid\<close>, listing exactly that set, also when the roster yields no
  student. The constructor fails with \<open>EmptyPopulation\<close> on every empty roster, but the
  loader catches that exception, so loading never ends with \<open>EmptyPopulation\<close> (what its
  fallback does is not part of this statement). With a roster that yields at least one
  student, no invalid female name and a numeric \<open>no_duplicate\<close> setting a pool is built;
  and a pool over such a roster is built only when every female identity is a roster
  identity, and then each of them is found in the dictionary and has its female bit set:
  none is dropped.
\<close>

theorem load_rejects_invalid_female:
  "(set (map original_name (parse_student_file isspace g_names_file FEMALE)) -
    set (map original_name (parse_student_file isspace names_file UNKNOWN)) \<noteq> {} \<longrightarrow>
      load_student_data_attempt isspace nd_setting names_file g_names_file =
        Inl (SubsetViolation
              (set (map original_name (parse_student_file isspace g_names_file FEMALE)) -
               set (map original_name (parse_student_file isspace names_file UNKNOWN))))) \<and>
   StudentPool_init [] female_students nd = Inl EmptyPopulation \<and>
   load_student_data_attempt isspace nd_setting names_file g_names_file \<noteq> Inl EmptyPopulation \<and>
   (set (map original_name (parse_student_file isspace g_names_file FEMALE)) -
    set (map original_name (parse_student_file isspace names_file UNKNOWN)) = {} \<and>
    parse_student_file isspace names_file UNKNOWN \<noteq> [] \<and>
    \<not> compare_with_int_raises nd_setting \<longrightarrow>
      (\<exists>p. load_student_data_attempt isspace nd_setting names_file g_names_file = Inr p)) \<and>
   (\<forall>p. parse_student_file isspace names_file UNKNOWN \<noteq> [] \<and>
      load_student_data_attempt isspace nd_setting names_file g_names_file = Inr p \<longrightarrow>
      pool_wf p \<and>
      students p = parse_student_file isspace names_file UNKNOWN \<and>
      set (map original_name (parse_student_file isspace g_names_file FEMALE)) \<subseteq>
        set (map original_name (students p)) \<and>
      (\<forall>s \<in> set (parse_student_file isspace g_names_file FEMALE).
         \<exists>i < length (students p).
           name_to_idx p (original_name s) = Some i \<and> female_bitmap p ! i))"
proof -
  let ?all = "parse_student_file isspace names_file UNKNOWN"
  let ?fem = "parse_student_file isspace g_names_file FEMALE"
  let ?invalid = "set (map original_name ?fem) - set (map original_name ?all)"
  let ?load = "load_student_data_attempt isspace nd_setting names_file g_names_file"
  have call: "StudentPool_call (map StudentItem ?all) (map StudentItem ?fem) 0 =
      StudentPool_init ?all ?fem 0"
    by (rule StudentPool_call_students)
  have fallback: "StudentPool_call [StrItem ''load failed''] [StrItem ''load failed''] 0 =
      Inl AttributeError"
    by (rule StudentPool_call_strings)
  have valid_load: "?load =
      (case StudentPool_init ?all ?fem 0 of
         Inl e \<Rightarrow> Inl AttributeError
       | Inr pool \<Rightarrow> (if compare_with_int_raises nd_setting then Inl AttributeError
                       else Inr pool))"
    if "?invalid = {}"
    using that unfolding load_student_data_attempt_def Let_def call fallback by simp
  have a: "?invalid \<noteq> {} \<longrightarrow> ?load = Inl (SubsetViolation ?invalid)"
    by (simp add: load_student_data_attempt_def Let_def)
  have b: "StudentPool_init [] female_students nd = Inl EmptyPopulation"
    by (simp add: StudentPool_init_def)
  have c: "?load \<noteq> Inl EmptyPopulation"
  proof (cases "?invalid = {}")
    case True
    from valid_load [OF True] show ?thesis by (simp split: sum.splits if_splits)
  next
    case False
    with a show ?thesis by simp
  qed
  have d: "?invalid = {} \<and> ?all \<noteq> [] \<and> \<not> compare_with_int_raises nd_setting \<longrightarrow>
      (\<exists>p. ?load = Inr p)"
  proof (intro impI, elim conjE)
    assume v: "?invalid = {}" and ne: "?all \<noteq> []"
      and num: "\<not> compare_with_int_raises nd_setting"
    from ne obtain p where "StudentPool_init ?all ?fem 0 = Inr p"
      by (auto simp: StudentPool_init_def Let_def)
    with valid_load [OF v] num show "\<exists>p. ?load = Inr p" by simp
  qed
  have e: "pool_wf p \<and> students p = ?all \<and>
      set (map original_name ?fem) \<subseteq> set (map original_name (students p)) \<and>
      (\<forall>s \<in> set ?fem. \<exists>i < length (students p).
           name_to_idx p (original_name s) = Some i \<and> female_bitmap p ! i)"
    if built: "?load = Inr p" for p
  proof -
    have valid: "?invalid = {}"
    proof (rule ccontr)
      assume "?invalid \<noteq> {}"
      with a built show False by simp
    qed
    from valid_load [OF valid] built have init: "StudentPool_init ?all ?fem 0 = Inr p"
      by (simp split: sum.splits if_splits)
    from init have wf: "pool_wf p" by (rule StudentPool_init_wf)
    from init have st: "students p = ?all"
      and n2i: "name_to_idx p = build_name_to_idx ?all"
      and fb: "female_bitmap p =
                 mark_female (build_name_to_idx ?all) (replicate (length ?all) False) ?fem"
      by (auto simp: StudentPool_init_def Let_def split: if_splits)
    from valid st have sub: "set (map original_name ?fem) \<subseteq> set (map original_name (students p))"
      by simp
    have "\<exists>i < length (students p). name_to_idx p (original_name s) = Some i \<and> female_bitmap p ! i"
      if s: "s \<in> set ?fem" for s
    proof -
      from s sub st have "original_name s \<in> original_name ` set ?all" by auto
      from build_name_to_idx_known [OF this]
      obtain i where look: "build_name_to_idx ?all (original_name s) = Some i" ..
      from build_name_to_idx_SomeD [OF look] have i: "i < length ?all" by simp
      from mark_female_sets [of s ?fem "build_name_to_idx ?all" i "replicate (length ?all) False"]
        s look i
      have "female_bitmap p ! i" by (simp add: fb)
      with look i show ?thesis by (auto simp: n2i st)
    qed
    with wf st sub show ?thesis by blast
  qed
  from a b c d e show ?thesis by blast
qed

theorem load_rejects_invalid_female_witness:
  "load_student_data_attempt ascii_space (JInt 0)
     [''# roster'', ''A'' @ [CHR 0x0A], ''C''] [''C'' @ [CHR 0x0A], ''Z''] =
     Inl (SubsetViolation {''Z''}) \<and>
   parse_student_file ascii_space [''A'' @ [CHR 0x0A], ''C''] UNKNOWN \<noteq> [] \<and>
   (\<exists>p. load_student_data_attempt ascii_space (JInt 0) [''A'' @ [CHR 0x0A], ''C''] [''C'' @ [CHR 0x0A]] =
      Inr p \<and>
      pool_wf p \<and> name_to_idx p ''C'' = Some 1 \<and> female_bitmap p = [False, True])"
proof -
  let ?names = "[''# roster'', ''A'' @ [CHR 0x0A], ''C'']"
  let ?girls = "[''C'' @ [CHR 0x0A], ''Z'']"
  let ?names2 = "[''A'' @ [CHR 0x0A], ''C'']"
  let ?girls2 = "[''C'' @ [CHR 0x0A]]"
  have all: "parse_student_file ascii_space ?names UNKNOWN =
      [\<lparr> original_name = ''A'', display_name = ''A'', gender = UNKNOWN \<rparr>,
       \<lparr> original_name = ''C'', display_name = ''C'', gender = UNKNOWN \<rparr>]"
    by (simp add: parse_student_file_def skipped_line_def strip_def rstrip_newline_def
        ascii_space_def)
  have fem: "parse_student_file ascii_space ?girls FEMALE =
      [\<lparr> original_name = ''C'', display_name = ''C'', gender = FEMALE \<rparr>,
       \<lparr> original_name = ''Z'', display_name = ''Z'', gender = FEMALE \<rparr>]"
    by (simp add: parse_student_file_def skipped_line_def strip_def rstrip_newline_def
        ascii_space_def)
  have invalid: "set (map original_name (parse_student_file ascii_space ?girls FEMALE)) -
      set (map original_name (parse_student_file ascii_space ?names UNKNOWN)) = {''Z''}"
    unfolding all fem by auto
  have all2: "parse_student_file ascii_space ?names2 UNKNOWN =
      [\<lparr> original_name = ''A'', display_name = ''A'', gender = UNKNOWN \<rparr>,
       \<lparr> original_name = ''C'', display_name = ''C'', gender = UNKNOWN \<rparr>]"
    by (simp add: parse_student_file_def skipped_line_def strip_def rstrip_newline_def
        ascii_space_def)
  have fem2: "parse_student_file ascii_space ?girls2 FEMALE =
      [\<lparr> original_name = ''C'', display_name = ''C'', gender = FEMALE \<rparr>]"
    by (simp add: parse_student_file_def skipped_line_def strip_def rstrip_newline_def
        ascii_space_def)
  have valid2: "set (map original_name (parse_student_file ascii_space ?girls2 FEMALE)) -
      set (map original_name (parse_student_file ascii_space ?names2 UNKNOWN)) = {}"
    unfolding all2 fem2 by auto
  have ne2: "parse_student_file ascii_space ?names2 UNKNOWN \<noteq> []"
    unfolding all2 by simp
  note thm1 = load_rejects_invalid_female
    [where isspace = ascii_space and g_names_file = ?girls and names_file = ?names
       and nd_setting = "JInt 0" and female_students = "[]" and nd = 0]
  note thm2 = load_rejects_invalid_female
    [where isspace = ascii_space and g_names_file = ?girls2 and names_file = ?names2
       and nd_setting = "JInt 0" and female_students = "[]" and nd = 0]
  have num: "\<not> compare_with_int_raises (JInt 0)" by simp
  have first: "load_student_data_attempt ascii_space (JInt 0) ?names ?girls = Inl (SubsetViolation {''Z''})"
    using thm1 unfolding invalid by blast
  from thm2 valid2 ne2 num
  obtain p where built: "load_student_data_attempt ascii_space (JInt 0) ?names2 ?girls2 = Inr p"
    by blast
  with thm2 ne2 have wf: "pool_wf p" by blast
  from built have init: "StudentPool_init (parse_student_file ascii_space ?names2 UNKNOWN)
      (parse_student_file ascii_space ?girls2 FEMALE) 0 = Inr p"
    unfolding load_student_data_attempt_def Let_def StudentPool_call_students valid2
    by (simp split: sum.splits add: StudentPool_call_strings)
  then have look: "name_to_idx p ''C'' = Some 1" and fb: "female_bitmap p = [False, True]"
    unfolding all2 fem2
    by (auto simp: StudentPool_init_def Let_def build_name_to_idx_def mark_female_def)
  from first ne2 built wf look fb show ?thesis by blast
qed

text \<open>
  As stated, the claim asks for \<open>EmptyPopulation\<close> whenever the roster yields no student.
  With a roster file that holds only a comment line and a female file that holds Z, the
  attempt reports the subset violation instead.
\<close>

theorem empty_roster_counterexample:
  "parse_student_file ascii_space [''# roster''] UNKNOWN = [] \<and>
   load_student_data_attempt ascii_space (JInt 0) [''# roster''] [''Z''] = Inl (SubsetViolation {''Z''}) \<and>
   load_student_data_attempt ascii_space (JInt 0) [''# roster''] [''Z''] \<noteq> Inl EmptyPopulation"
  by (simp add: load_student_data_attempt_def parse_student_file_def skipped_line_def strip_def
      rstrip_newline_def ascii_space_def Let_def)

subsection \<open>C7: reset touches one gender and always clears the recent window\<close>

text \<open>
  Claim C7. For \<open>g\<close> in \<open>{MALE, FEMALE}\<close>, \<open>reset g\<close> sets the available mask to
  \<open>available | genderMask(g)\<close> and the picked mask to \<open>picked & ~genderMask(g)\<close>: every
  student of that gender becomes available and not picked, every available and picked bit of
  the other gender keeps its value, and the female mask is unchanged. For every filter,
  \<open>UNKNOWN\<close> included, the recent queue is emptied and the recent bitmap is all zero.
\<close>

theorem reset_gender_frame:
  "pool_wf p \<Longrightarrow>
   (g \<noteq> UNKNOWN \<longrightarrow>
      bit_available (reset g p) = bit_or (bit_available p) (gender_mask p g) \<and>
      bit_picked (reset g p) = bit_and (bit_picked p) (bit_not (gender_mask p g)) \<and>
      (\<forall>i < length (students p).
         (gender_mask p g ! i \<longrightarrow>
            bit_available (reset g p) ! i \<and> \<not> bit_picked (reset g p) ! i) \<and>
         (\<not> gender_mask p g ! i \<longrightarrow>
            bit_available (reset g p) ! i = bit_available p ! i \<and>
            bit_picked (reset g p) ! i = bit_picked p ! i))) \<and>
   female_bitmap (reset g p) = female_bitmap p \<and>
   students (reset g p) = students p \<and>
   recent_queue (reset g p) = [] \<and>
   recent_bitmap (reset g p) = replicate (length (students p)) False"
  by (cases g)
     (simp_all add: pool_wf_def reset_def gender_mask_def Let_def setall_def bit_or_def
       bit_and_def bit_not_def)

theorem reset_gender_frame_witness:
  "pool_wf (pool_after (demo_pool 2) [(UNKNOWN, True, 0), (FEMALE, True, 0)]) \<and>
   recent_queue (pool_after (demo_pool 2) [(UNKNOWN, True, 0), (FEMALE, True, 0)]) = [0, 2] \<and>
   bit_available (pool_after (demo_pool 2) [(UNKNOWN, True, 0), (FEMALE, True, 0)]) =
     [False, True, False, True, True] \<and>
   bit_available (reset FEMALE (pool_after (demo_pool 2) [(UNKNOWN, True, 0), (FEMALE, True, 0)])) =
     [False, True, True, True, True] \<and>
   bit_picked (reset FEMALE (pool_after (demo_pool 2) [(UNKNOWN, True, 0), (FEMALE, True, 0)])) =
     [True, False, False, False, False] \<and>
   recent_queue (reset FEMALE (pool_after (demo_pool 2) [(UNKNOWN, True, 0), (FEMALE, True, 0)])) =
     [] \<and>
   recent_bitmap (reset FEMALE (pool_after (demo_pool 2) [(UNKNOWN, True, 0), (FEMALE, True, 0)])) =
     [False, False, False, False, False]"
proof -
  let ?p = "pool_after (demo_pool 2) [(UNKNOWN, True, 0), (FEMALE, True, 0)]"
  have wf: "pool_wf ?p" using demo_pool_wf by (rule pool_after_wf)
  have q: "recent_queue ?p = [0, 2]" by code_simp
  have a: "bit_available ?p = [False, True, False, True, True]" by code_simp
  have a': "bit_or (bit_available ?p) (gender_mask ?p FEMALE) = [False, True, True, True, True]"
    by code_simp
  have b': "bit_and (bit_picked ?p) (bit_not (gender_mask ?p FEMALE)) =
      [True, False, False, False, False]" by code_simp
  have r: "replicate (length (students ?p)) False = [False, False, False, False, False]"
    by code_simp
  from reset_gender_frame [OF wf, of FEMALE] wf q a a' b' r show ?thesis by simp
qed

subsection \<open>C8: restore followed by export\<close>

text \<open>
  Claim C8. For every set \<open>S\<close> of identities (visited in any order),
  \<open>restore_available_names S\<close> followed by \<open>get_available_names\<close> gives exactly the
  members of \<open>S\<close> that are identities of the roster; names unknown to the roster are
  ignored.
\<close>

theorem restore_then_get_available:
  "pool_wf p \<Longrightarrow>
   get_available_names (restore_available_names names p) =
     set names \<inter> original_name ` set (students p)"
proof -
  assume wf: "pool_wf p"
  then have n2i: "name_to_idx p = build_name_to_idx (students p)" by (simp add: pool_wf_def)
  show ?thesis
  proof (rule set_eqI)
    fix n
    show "n \<in> get_available_names (restore_available_names names p) \<longleftrightarrow>
          n \<in> set names \<inter> original_name ` set (students p)"
    proof
      assume "n \<in> get_available_names (restore_available_names names p)"
      then obtain i where i: "i < length (students p)"
        and n: "n = original_name (students p ! i)"
        and av: "bit_available (restore_available_names names p) ! i"
        by (auto simp: get_available_names_def)
      from av restore_available_bits [OF wf i, of names]
      obtain m where m: "m \<in> set names" "name_to_idx p m = Some i" by auto
      from build_name_to_idx_SomeD [of "students p" m i] m(2) n2i n have "m = n" by simp
      with m(1) i n show "n \<in> set names \<inter> original_name ` set (students p)" by auto
    next
      assume "n \<in> set names \<inter> original_name ` set (students p)"
      then have ns: "n \<in> set names" and known: "n \<in> original_name ` set (students p)"
        by simp_all
      from build_name_to_idx_known [OF known] n2i
      obtain i where look: "name_to_idx p n = Some i" by auto
      with build_name_to_idx_SomeD [of "students p" n i] n2i
      have i: "i < length (students p)" and n: "original_name (students p ! i) = n" by simp_all
      from restore_available_bits [OF wf i, of names] ns look
      have "bit_available (restore_available_names names p) ! i" by auto
      with i n show "n \<in> get_available_names (restore_available_names names p)"
        by (force simp: get_available_names_def)
    qed
  qed
qed

theorem restore_then_get_available_witness:
  "pool_wf (demo_pool 0) \<and>
   get_available_names (restore_available_names [''B'', ''Z'', ''D''] (demo_pool 0)) =
     {''B'', ''D''}"
proof -
  have "set [''B'', ''Z'', ''D''] \<inter> original_name ` set (students (demo_pool 0)) =
      {''B'', ''D''}"
    by code_simp
  with restore_then_get_available [OF demo_pool_wf, of "[''B'', ''Z'', ''D'']" 0] demo_pool_wf
  show ?thesis by simp
qed

subsection \<open>C9: overflow flush or debounce\<close>

text \<open>
  Claim C9. \<open>request_save\<close> merges the new reasons into the pending set. If the merged set
  has more than 5 members, the debounce timer is stopped and the flush runs within the call:
  it takes the whole merged set and empties the queue (the reasons come back, with a retry
  scheduled, only on the path where the save raises \<^verbatim>\<open>RuntimeError\<close>). Otherwise no
  flush runs, the queue is the merged set, and the timer is active with deadline
  \<open>now + CONFIG_SAVE_DELAY\<close> whatever its state was before, so only the time since the last
  request counts.
\<close>

theorem request_save_overflow_or_debounce:
  "(5 < fcard (save_queue s |\<union>| fset_of_list reasons) \<longrightarrow>
      flush_log (snd (request_save body now reasons s)) =
        flush_log s @ [save_queue s |\<union>| fset_of_list reasons] \<and>
      \<not> timer_active (debounce_timer (snd (request_save body now reasons s))) \<and>
      \<not> is_pending (debounce_timer (snd (request_save body now reasons s))) \<and>
      save_queue (snd (request_save body now reasons s)) =
        (if body = SaveReturned (Some RuntimeError)
         then save_queue s |\<union>| fset_of_list reasons else {||}) \<and>
      retry_timers (snd (request_save body now reasons s)) =
        (if body = SaveReturned (Some RuntimeError) then retry_timers s @ [now + 1000]
         else retry_timers s)) \<and>
   (fcard (save_queue s |\<union>| fset_of_list reasons) \<le> 5 \<longrightarrow>
      fst (request_save body now reasons s) = None \<and>
      flush_log (snd (request_save body now reasons s)) = flush_log s \<and>
      save_queue (snd (request_save body now reasons s)) =
        save_queue s |\<union>| fset_of_list reasons \<and>
      timer_active (debounce_timer (snd (request_save body now reasons s))) \<and>
      is_pending (debounce_timer (snd (request_save body now reasons s))) \<and>
      timer_deadline (debounce_timer (snd (request_save body now reasons s))) =
        now + CONFIG_SAVE_DELAY \<and>
      retry_timers (snd (request_save body now reasons s)) = retry_timers s)"
proof (intro conjI impI)
  assume big: "5 < fcard (save_queue s |\<union>| fset_of_list reasons)"
  let ?s2 = "s\<lparr> save_queue := save_queue s |\<union>| fset_of_list reasons,
                debounce_timer := debouncer_stop (debounce_timer s) \<rparr>"
  from big have "save_queue s |\<union>| fset_of_list reasons \<noteq> {||}" by (auto simp: fcard_fempty)
  then have ne: "save_queue ?s2 \<noteq> {||}" by simp
  note f = flush_nonempty [OF ne, of body now] and r = request_save_flushes [OF big, of body now]
  show "flush_log (snd (request_save body now reasons s)) =
        flush_log s @ [save_queue s |\<union>| fset_of_list reasons]"
    using f(1) by (simp add: r)
  show "\<not> timer_active (debounce_timer (snd (request_save body now reasons s)))"
    using f(2) by (simp add: r debouncer_stop_def)
  show "\<not> is_pending (debounce_timer (snd (request_save body now reasons s)))"
    using f(2) by (simp add: r debouncer_stop_def)
  show "save_queue (snd (request_save body now reasons s)) =
        (if body = SaveReturned (Some RuntimeError)
         then save_queue s |\<union>| fset_of_list reasons else {||})"
    using f(3) by (simp add: r)
  show "retry_timers (snd (request_save body now reasons s)) =
        (if body = SaveReturned (Some RuntimeError) then retry_timers s @ [now + 1000]
         else retry_timers s)"
    using f(4) by (simp add: r)
next
  assume small: "fcard (save_queue s |\<union>| fset_of_list reasons) \<le> 5"
  note r = request_save_restarts_timer [OF small, of body now]
  show "fst (request_save body now reasons s) = None" by (simp add: r)
  show "flush_log (snd (request_save body now reasons s)) = flush_log s" by (simp add: r)
  show "save_queue (snd (request_save body now reasons s)) =
        save_queue s |\<union>| fset_of_list reasons" by (simp add: r)
  show "timer_active (debounce_timer (snd (request_save body now reasons s)))"
    by (simp add: r debouncer_start_def debouncer_stop_def)
  show "is_pending (debounce_timer (snd (request_save body now reasons s)))"
    by (simp add: r debouncer_start_def debouncer_stop_def)
  show "timer_deadline (debounce_timer (snd (request_save body now reasons s))) =
        now + CONFIG_SAVE_DELAY"
    by (simp add: r debouncer_start_def debouncer_stop_def)
  show "retry_timers (snd (request_save body now reasons s)) = retry_timers s" by (simp add: r)
qed

theorem request_save_overflow_or_debounce_witness:
  "5 < fcard (save_queue (initial_save_state 0) |\<union>|
        fset_of_list [''a'', ''b'', ''c'', ''d'', ''e'', ''f'']) \<and>
   flush_log (snd (request_save NoUpdates 10 [''a'', ''b'', ''c'', ''d'', ''e'', ''f'']
       (initial_save_state 0))) = [fset_of_list [''a'', ''b'', ''c'', ''d'', ''e'', ''f'']] \<and>
   save_queue (snd (request_save NoUpdates 10 [''a'', ''b'', ''c'', ''d'', ''e'', ''f'']
       (initial_save_state 0))) = {||} \<and>
   fcard (save_queue (snd (request_save NoUpdates 10 [''geometry''] (initial_save_state 0)))
          |\<union>| fset_of_list [''geometry'', ''state'']) \<le> 5 \<and>
   timer_deadline (debounce_timer (snd (request_save NoUpdates 10 [''geometry'']
       (initial_save_state 0)))) = 310 \<and>
   timer_deadline (debounce_timer (snd (request_save NoUpdates 200 [''geometry'', ''state'']
       (snd (request_save NoUpdates 10 [''geometry''] (initial_save_state 0)))))) = 500 \<and>
   flush_log (snd (request_save NoUpdates 200 [''geometry'', ''state'']
       (snd (request_save NoUpdates 10 [''geometry''] (initial_save_state 0))))) = []"
proof -
  let ?six = "[''a'', ''b'', ''c'', ''d'', ''e'', ''f'']"
  let ?s1 = "snd (request_save NoUpdates 10 [''geometry''] (initial_save_state 0))"
  have big: "5 < fcard (save_queue (initial_save_state 0) |\<union>| fset_of_list ?six)"
    by code_simp
  have small1: "fcard (save_queue (initial_save_state 0) |\<union>| fset_of_list [''geometry'']) \<le> 5"
    by code_simp
  have small2: "fcard (save_queue ?s1 |\<union>| fset_of_list [''geometry'', ''state'']) \<le> 5"
    by code_simp
  note a = request_save_overflow_or_debounce [of "initial_save_state 0" ?six NoUpdates 10]
  note b = request_save_overflow_or_debounce [of "initial_save_state 0" "[''geometry'']" NoUpdates 10]
  note c = request_save_overflow_or_debounce [of ?s1 "[''geometry'', ''state'']" NoUpdates 200]
  from a big have a1: "flush_log (snd (request_save NoUpdates 10 ?six (initial_save_state 0))) =
      [fset_of_list ?six]"
    and a2: "save_queue (snd (request_save NoUpdates 10 ?six (initial_save_state 0))) = {||}"
    by (simp_all add: initial_save_state_def)
  from b small1 have b1: "timer_deadline (debounce_timer ?s1) = 310"
    and b2: "flush_log ?s1 = []"
    by (simp_all add: CONFIG_SAVE_DELAY_def initial_save_state_def)
  from c small2 b2 have c1: "timer_deadline (debounce_timer
      (snd (request_save NoUpdates 200 [''geometry'', ''state''] ?s1))) = 500"
    and c2: "flush_log (snd (request_save NoUpdates 200 [''geometry'', ''state''] ?s1)) = []"
    by (simp_all add: CONFIG_SAVE_DELAY_def)
  from big a1 a2 small2 b1 c1 c2 show ?thesis by (intro conjI)
qed

subsection \<open>C10: loading writes the file back\<close>

text \<open>
  Claim C10, as amended. In a state without a cache (hence without a stored hash), when
  the persisted file decodes to a mapping whose default-merged form has an integer
  revision \<open>r\<close> and no \<open>recent_bitmap\<close> key, and the file operations succeed,
  \<open>load_cached\<close> calls \<open>save_atomic\<close> on the merged mapping: the file is rewritten with
  revision \<open>r + 1\<close> and the stored hash is set to it, while the mapping returned and
  installed as the cache keeps revision \<open>r\<close>. When the save raises instead, the load
  returns the defaults, caches them, and leaves the file and the hash untouched.
\<close>

theorem load_cached_writes_back:
  "hash_needs_cache st \<Longrightarrow> config_cache st = None \<Longrightarrow> config_file st = Some text \<Longrightarrow>
   json_loads rt text = JsonMapping loaded \<Longrightarrow>
   (''recent_bitmap'' \<notin> dom (DEFAULT_CONFIG ++ loaded) \<and>
    revision_of (DEFAULT_CONFIG ++ loaded) = JInt r \<longrightarrow>
      load_cached rt IoOk st =
        (DEFAULT_CONFIG ++ loaded,
         st\<lparr> tmp_file := None,
             config_file :=
               Some (json_dumps rt
                      ((DEFAULT_CONFIG ++ loaded)(KEY_INTERNAL_REVISION \<mapsto> JInt (r + 1)))),
             config_cache := Some (DEFAULT_CONFIG ++ loaded),
             last_save_hash :=
               Some (sha256_hex rt
                      (json_dumps rt
                         ((DEFAULT_CONFIG ++ loaded)(KEY_INTERNAL_REVISION \<mapsto> JInt (r + 1))))) \<rparr>) \<and>
      revision_of (DEFAULT_CONFIG ++ loaded) = JInt r \<and>
      revision_of ((DEFAULT_CONFIG ++ loaded)(KEY_INTERNAL_REVISION \<mapsto> JInt (r + 1))) =
        JInt (r + 1)) \<and>
   (\<forall>e. fst (save_atomic rt io (DEFAULT_CONFIG ++ loaded) st) = Some e \<longrightarrow>
      fst (load_cached rt io st) = DEFAULT_CONFIG \<and>
      config_cache (snd (load_cached rt io st)) = Some DEFAULT_CONFIG \<and>
      config_file (snd (load_cached rt io st)) = config_file st \<and>
      last_save_hash (snd (load_cached rt io st)) = None)"
proof -
  assume inv: "hash_needs_cache st" and fresh: "config_cache st = None"
    and cf: "config_file st = Some text" and dec: "json_loads rt text = JsonMapping loaded"
  from inv fresh have nohash: "last_save_hash st = None" by (simp add: hash_needs_cache_def)
  have ok: "load_cached rt IoOk st =
        (DEFAULT_CONFIG ++ loaded,
         st\<lparr> tmp_file := None,
             config_file :=
               Some (json_dumps rt
                      ((DEFAULT_CONFIG ++ loaded)(KEY_INTERNAL_REVISION \<mapsto> JInt (r + 1)))),
             config_cache := Some (DEFAULT_CONFIG ++ loaded),
             last_save_hash :=
               Some (sha256_hex rt
                      (json_dumps rt
                         ((DEFAULT_CONFIG ++ loaded)(KEY_INTERNAL_REVISION \<mapsto> JInt (r + 1))))) \<rparr>)"
    if "''recent_bitmap'' \<notin> dom (DEFAULT_CONFIG ++ loaded)"
      "revision_of (DEFAULT_CONFIG ++ loaded) = JInt r"
    using load_internal_writes_back [OF nohash cf dec that] fresh
    by (simp add: load_cached_def del: fun_upd_apply)
  have bad: "fst (load_cached rt io st) = DEFAULT_CONFIG \<and>
      config_cache (snd (load_cached rt io st)) = Some DEFAULT_CONFIG \<and>
      config_file (snd (load_cached rt io st)) = config_file st \<and>
      last_save_hash (snd (load_cached rt io st)) = None"
    if "fst (save_atomic rt io (DEFAULT_CONFIG ++ loaded) st) = Some e" for e
    using load_internal_save_raises [OF cf dec that] fresh nohash
    by (auto simp: load_cached_def split: prod.splits)
  from ok bad show ?thesis by (simp del: fun_upd_apply)
qed

theorem load_cached_writes_back_witness:
  "hash_needs_cache (initial_store (Some (toy_dumps toy_saved))) \<and>
   json_loads toy_runtime (toy_dumps toy_saved) = JsonMapping toy_saved \<and>
   fst (load_cached toy_runtime IoOk (initial_store (Some (toy_dumps toy_saved)))) =
     DEFAULT_CONFIG ++ toy_saved \<and>
   map_option revision_of
     (config_cache (snd (load_cached toy_runtime IoOk (initial_store (Some (toy_dumps toy_saved))))))
     = Some (JInt 7) \<and>
   config_file (snd (load_cached toy_runtime IoOk (initial_store (Some (toy_dumps toy_saved))))) =
     Some ''_revision:11111111;picked_count:111;recent_bitmap:~;'' \<and>
   last_save_hash (snd (load_cached toy_runtime IoOk (initial_store (Some (toy_dumps toy_saved))))) =
     Some ''_revision:11111111;picked_count:111;recent_bitmap:~;''"
proof -
  let ?st = "initial_store (Some (toy_dumps toy_saved))"
  let ?m = "DEFAULT_CONFIG ++ toy_saved"
  have inv: "hash_needs_cache ?st" by (simp add: hash_needs_cache_def initial_store_def)
  have fresh: "config_cache ?st = None" by (simp add: initial_store_def)
  have cf: "config_file ?st = Some (toy_dumps toy_saved)" by (simp add: initial_store_def)
  have dec: "json_loads toy_runtime (toy_dumps toy_saved) = JsonMapping toy_saved"
    by (simp add: toy_loads_def)
  have nb: "''recent_bitmap'' \<notin> dom ?m"
    using dom_DEFAULT_CONFIG by (simp add: toy_saved_def)
  have rv: "revision_of ?m = JInt 7"
    by (simp add: revision_of_def KEY_INTERNAL_REVISION_def toy_saved_def map_add_def)
  have out: "toy_dumps (?m(KEY_INTERNAL_REVISION \<mapsto> JInt (7 + 1))) =
      ''_revision:11111111;picked_count:111;recent_bitmap:~;''"
    using dom_DEFAULT_CONFIG
    by (simp add: toy_dumps_def toy_saved_def KEY_INTERNAL_REVISION_def map_add_def domIff
        eval_nat_numeral)
  from load_cached_writes_back [OF inv fresh cf dec, of 7 IoOk] nb rv
  have "load_cached toy_runtime IoOk ?st =
        (?m,
         ?st\<lparr> tmp_file := None,
             config_file :=
               Some (json_dumps toy_runtime (?m(KEY_INTERNAL_REVISION \<mapsto> JInt (7 + 1)))),
             config_cache := Some ?m,
             last_save_hash :=
               Some (sha256_hex toy_runtime
                      (json_dumps toy_runtime (?m(KEY_INTERNAL_REVISION \<mapsto> JInt (7 + 1))))) \<rparr>)"
    by blast
  then have "fst (load_cached toy_runtime IoOk ?st) = ?m"
    and "map_option revision_of (config_cache (snd (load_cached toy_runtime IoOk ?st))) = Some (JInt 7)"
    and "config_file (snd (load_cached toy_runtime IoOk ?st)) =
      Some ''_revision:11111111;picked_count:111;recent_bitmap:~;''"
    and "last_save_hash (snd (load_cached toy_runtime IoOk ?st)) =
      Some ''_revision:11111111;picked_count:111;recent_bitmap:~;''"
    using out rv by (simp_all del: fun_upd_apply)
  with inv dec show ?thesis by (intro conjI)
qed

text \<open>
  As stated (on every successful decode) the claim fails on a file that decodes to a
  mapping with a non-numeric revision: the save inside the load raises, the exception is
  swallowed, the defaults are returned and cached, and the file is not rewritten.
\<close>

theorem load_cached_bad_revision_counterexample:
  "json_loads toy_runtime (toy_dumps toy_bad_revision) = JsonMapping toy_bad_revision \<and>
   fst (load_cached toy_runtime IoOk (initial_store (Some (toy_dumps toy_bad_revision)))) =
     DEFAULT_CONFIG \<and>
   config_cache (snd (load_cached toy_runtime IoOk (initial_store (Some (toy_dumps toy_bad_revision)))))
     = Some DEFAULT_CONFIG \<and>
   config_file (snd (load_cached toy_runtime IoOk (initial_store (Some (toy_dumps toy_bad_revision)))))
     = Some (toy_dumps toy_bad_revision) \<and>
   last_save_hash (snd (load_cached toy_runtime IoOk (initial_store (Some (toy_dumps toy_bad_revision)))))
     = None"
proof -
  let ?st = "initial_store (Some (toy_dumps toy_bad_revision))"
  have dec: "json_loads toy_runtime (toy_dumps toy_bad_revision) = JsonMapping toy_bad_revision"
    by (simp add: toy_loads_def toy_dumps_saved toy_dumps_bad)
  have rv: "py_add1 toy_runtime (revision_of (DEFAULT_CONFIG ++ toy_bad_revision)) = Inl TypeError"
    by (simp add: revision_of_def KEY_INTERNAL_REVISION_def toy_bad_revision_def map_add_def)
  have nb: "''recent_bitmap'' \<notin> dom (DEFAULT_CONFIG ++ toy_bad_revision)"
    using dom_DEFAULT_CONFIG by (simp add: toy_bad_revision_def)
  have sv: "save_atomic toy_runtime IoOk (DEFAULT_CONFIG ++ toy_bad_revision) ?st =
      (Some TypeError, ?st)"
    using rv nb by (simp add: save_atomic_def Let_def initial_store_def)
  have "load_cached toy_runtime IoOk ?st = (DEFAULT_CONFIG, ?st\<lparr> config_cache := Some DEFAULT_CONFIG \<rparr>)"
    using dec sv by (simp add: load_cached_def load_internal_def Let_def initial_store_def)
  then have "fst (load_cached toy_runtime IoOk ?st) = DEFAULT_CONFIG"
    and "config_cache (snd (load_cached toy_runtime IoOk ?st)) = Some DEFAULT_CONFIG"
    and "config_file (snd (load_cached toy_runtime IoOk ?st)) = Some (toy_dumps toy_bad_revision)"
    and "last_save_hash (snd (load_cached toy_runtime IoOk ?st)) = None"
    by (simp_all add: initial_store_def)
  with dec show ?thesis by (intro conjI)
qed

end
